(* ===== verification/Prelude.thy ===== *)
theory Prelude
  imports Main "HOL-Library.Word" "HOL-Library.Finite_Map"
    "HOL-Library.List_Lexorder" "HOL-Library.Char_ord" "HOL-Library.Multiset"
begin

text \<open>
  What every component of the development shares: the Go values the packages use (machine
  integers, byte slices, possibly nil maps), the outcome of a Go call (it returns or it
  panics) together with the effects it had, and the generic lemmas about them.

  A Go map is a finite map or nil. Reading a nil map is reading an empty one; writing to it
  panics, and that panic is a value of the model. A Go \<open>range\<close> over a map visits the entries
  in an order the language leaves open: an enumeration of the map is any list that the
  predicate \<open>enumerates\<close> accepts, and \<open>range_assign_merge\<close> shows that the assignment loops of
  the code do not depend on which one is taken.
\<close>

section \<open>Machine values\<close>

type_synonym byte = "8 word"
type_synonym uint16 = "16 word"
type_synonym uint32 = "32 word"
type_synonym goint = "64 word"
type_synonym bytes = "byte list"

text \<open>A byte slice that may be nil, and a value of Go's type \<open>any\<close>, which may be nil too.\<close>

type_synonym payload = "bytes option"
type_synonym 'm any = "'m option"

named_theorems comp_simps \<open>evaluation of calls and their effects\<close>
named_theorems gomap_simps \<open>reading and writing Go maps\<close>

section \<open>Outcomes and effects\<close>

text \<open>
  A call has a list of effects (calls to other components, measurements, log lines) in the
  order they happen, and an outcome: it returns a value or it panics. Sequencing stops at a
  panic and keeps the effects that preceded it.
\<close>

datatype panic = NilMapWrite | NilDereference | CloseOfClosedChannel

datatype 'a outcome = Ret 'a | Panic panic

type_synonym ('f, 'a) comp = "'f list \<times> 'a outcome"

definition ret :: "'a \<Rightarrow> ('f, 'a) comp" where
  "ret a = ([], Ret a)"

definition emit :: "'f list \<Rightarrow> ('f, unit) comp" where
  "emit fs = (fs, Ret ())"

definition panic :: "panic \<Rightarrow> ('f, 'a) comp" where
  "panic p = ([], Panic p)"

definition seq :: "('f, 'a) comp \<Rightarrow> ('a \<Rightarrow> ('f, 'b) comp) \<Rightarrow> ('f, 'b) comp" where
  "seq m k =
     (case m of
        (fs, Panic p) \<Rightarrow> (fs, Panic p)
      | (fs, Ret a) \<Rightarrow> (case k a of (gs, r) \<Rightarrow> (fs @ gs, r)))"

definition effects :: "('f, 'a) comp \<Rightarrow> 'f list" where
  "effects m = fst m"

definition outcome :: "('f, 'a) comp \<Rightarrow> 'a outcome" where
  "outcome m = snd m"

text \<open>The effects of a call seen by the component that made it.\<close>

definition relabel :: "('f \<Rightarrow> 'g) \<Rightarrow> ('f, 'a) comp \<Rightarrow> ('g, 'a) comp" where
  "relabel h m = (map h (fst m), snd m)"

lemma seq_ret [simp]: "seq (ret a) k = k a"
  by (simp add: seq_def ret_def split: prod.splits)

lemma seq_ret_right [simp]: "seq m ret = m"
  by (cases m) (simp add: seq_def ret_def split: outcome.splits)

lemma seq_panic [simp]: "seq (panic p) k = panic p"
  by (simp add: seq_def panic_def)

lemma seq_assoc: "seq (seq m k) l = seq m (\<lambda>a. seq (k a) l)"
  by (cases m) (auto simp: seq_def split: outcome.splits prod.splits)

lemma seq_Ret [simp]: "seq (fs, Ret a) k = (fs @ fst (k a), snd (k a))"
  by (simp add: seq_def split: prod.splits)

lemma seq_Panic [simp]: "seq (fs, Panic p) k = (fs, Panic p)"
  by (simp add: seq_def)

lemma seq_returned: "snd (seq m k) = Ret r \<Longrightarrow> \<exists>a. snd m = Ret a \<and> snd (k a) = Ret r"
  by (cases m) (auto simp: seq_def split: outcome.splits prod.splits)

lemma seq_emit [simp]: "seq (emit fs) k = (fs @ fst (k ()), snd (k ()))"
  by (simp add: emit_def)

lemma effects_simps [simp]:
  "effects (fs, r) = fs" "effects (ret a) = []" "effects (emit fs) = fs" "effects (panic p) = []"
  by (simp_all add: effects_def ret_def emit_def panic_def)

lemma outcome_simps [simp]:
  "outcome (fs, r) = r" "outcome (ret a) = Ret a" "outcome (emit fs) = Ret ()"
  "outcome (panic p) = Panic p"
  by (simp_all add: outcome_def ret_def emit_def panic_def)

lemma fst_snd_ret [simp]: "fst (ret a) = []" "snd (ret a) = Ret a"
  by (simp_all add: ret_def)

lemma fst_snd_emit [simp]: "fst (emit fs) = fs" "snd (emit fs) = Ret ()"
  by (simp_all add: emit_def)

lemma fst_snd_panic [simp]: "fst (panic p) = []" "snd (panic p) = Panic p"
  by (simp_all add: panic_def)

lemma relabel_simps [simp]:
  "relabel h (fs, r) = (map h fs, r)"
  "fst (relabel h m) = map h (fst m)" "snd (relabel h m) = snd m"
  "effects (relabel h m) = map h (effects m)" "outcome (relabel h m) = outcome m"
  by (simp_all add: relabel_def effects_def outcome_def)

lemma comp_eqI: "effects m = effects n \<Longrightarrow> outcome m = outcome n \<Longrightarrow> m = n"
  by (cases m; cases n) simp

lemma comp_collapse [simp]: "(effects m, outcome m) = m"
  by (simp add: effects_def outcome_def)

text \<open>Running a list of calls one after the other, as a Go loop over a slice does.\<close>

fun run_all :: "('f, unit) comp list \<Rightarrow> ('f, unit) comp" where
  "run_all [] = ret ()"
| "run_all (m # ms) = seq m (\<lambda>_. run_all ms)"

lemma run_all_Ret:
  "(\<forall>m \<in> set ms. outcome m = Ret ()) \<Longrightarrow> run_all ms = (concat (map effects ms), Ret ())"
proof (induction ms)
  case Nil
  then show ?case by (simp add: ret_def)
next
  case (Cons m ms)
  then show ?case by (cases m) auto
qed

lemma run_all_append: "run_all (ms @ ns) = seq (run_all ms) (\<lambda>_. run_all ns)"
  by (induction ms) (simp_all add: seq_assoc)

section \<open>Go maps\<close>

type_synonym ('k, 'v) gomap = "('k, 'v) fmap option"

definition gm_get :: "('k, 'v) gomap \<Rightarrow> 'k \<Rightarrow> 'v option" where
  "gm_get m k = (case m of None \<Rightarrow> None | Some f \<Rightarrow> fmlookup f k)"

text \<open>\<open>m[k]\<close>, which reads the zero value where there is no entry.\<close>

definition gm_index :: "'v \<Rightarrow> ('k, 'v) gomap \<Rightarrow> 'k \<Rightarrow> 'v" where
  "gm_index zero m k = (case gm_get m k of None \<Rightarrow> zero | Some v \<Rightarrow> v)"

definition gm_len :: "('k, 'v) gomap \<Rightarrow> nat" where
  "gm_len m = (case m of None \<Rightarrow> 0 | Some f \<Rightarrow> fcard (fmdom f))"

text \<open>\<open>m[k] = v\<close>.\<close>

definition gm_set :: "('k, 'v) gomap \<Rightarrow> 'k \<Rightarrow> 'v \<Rightarrow> ('k, 'v) gomap outcome" where
  "gm_set m k v =
     (case m of None \<Rightarrow> Panic NilMapWrite | Some f \<Rightarrow> Ret (Some (fmupd k v f)))"

text \<open>\<open>clear(m)\<close>, a no-op on a nil map.\<close>

definition gm_clear :: "('k, 'v) gomap \<Rightarrow> ('k, 'v) gomap" where
  "gm_clear m = map_option (\<lambda>_. fmempty) m"

text \<open>\<open>for k, v := range src { dst[k] = v }\<close>, over one enumeration of the source map.\<close>

fun range_assign :: "('k, 'v) gomap \<Rightarrow> ('k \<times> 'v) list \<Rightarrow> ('k, 'v) gomap outcome" where
  "range_assign m [] = Ret m"
| "range_assign m ((k, v) # kvs) =
     (case gm_set m k v of Panic p \<Rightarrow> Panic p | Ret m' \<Rightarrow> range_assign m' kvs)"

definition enumerates :: "('k, 'v) gomap \<Rightarrow> ('k \<times> 'v) list \<Rightarrow> bool" where
  "enumerates m kvs \<longleftrightarrow> distinct (map fst kvs) \<and> map_of kvs = gm_get m"

text \<open>The value of that loop, whatever the enumeration (\<open>range_assign_merge\<close>).\<close>

definition gm_merge :: "('k, 'v) gomap \<Rightarrow> ('k, 'v) gomap \<Rightarrow> ('k, 'v) gomap outcome" where
  "gm_merge dst src =
     (if gm_len src = 0 then Ret dst
      else case dst of None \<Rightarrow> Panic NilMapWrite
           | Some f \<Rightarrow> Ret (Some (case src of None \<Rightarrow> f | Some g \<Rightarrow> f ++\<^sub>f g)))"

lemma gm_get_simps [simp, gomap_simps]:
  "gm_get None = Map.empty" "gm_get (Some f) = fmlookup f"
  by (simp_all add: gm_get_def fun_eq_iff)

lemma gm_len_simps [simp, gomap_simps]:
  "gm_len None = 0" "gm_len (Some f) = fcard (fmdom f)"
  by (simp_all add: gm_len_def)

lemma fmlookup_fmempty [simp]: "fmlookup fmempty = Map.empty"
  by (simp add: fun_eq_iff)

lemma gm_len_0_iff: "gm_len m = 0 \<longleftrightarrow> gm_get m = Map.empty"
proof (cases m)
  case (Some f)
  have "gm_len m = 0 \<longleftrightarrow> fmdom f = {||}"
    using Some by simp
  also have "\<dots> \<longleftrightarrow> fmlookup f = Map.empty"
    by (metis fmempty_lookup fmap_ext fmdom_empty fmrestrict_fset_dom fmrestrict_fset_null)
  finally show ?thesis using Some by simp
qed simp

lemma gm_set_simps [simp, gomap_simps]:
  "gm_set None k v = Panic NilMapWrite" "gm_set (Some f) k v = Ret (Some (fmupd k v f))"
  by (simp_all add: gm_set_def)

lemma gm_clear_get [simp]: "gm_get (gm_clear m) = Map.empty"
  by (cases m) (auto simp: gm_clear_def)

lemma gm_index_simps [simp]:
  "gm_get m k = None \<Longrightarrow> gm_index z m k = z" "gm_get m k = Some v \<Longrightarrow> gm_index z m k = v"
  by (simp_all add: gm_index_def)

lemma gm_merge_Some:
  "gm_merge (Some f) src = Ret (Some (case src of None \<Rightarrow> f | Some g \<Rightarrow> f ++\<^sub>f g))"
proof (cases src)
  case (Some g)
  have "f ++\<^sub>f g = f" if "fcard (fmdom g) = 0"
    using that gm_len_0_iff [of "Some g"] by (intro fmap_ext) (simp add: map_add_def)
  with Some show ?thesis by (simp add: gm_merge_def)
qed (simp add: gm_merge_def)

lemma gm_merge_get:
  "gm_merge dst src = Ret m \<Longrightarrow> gm_get m = gm_get dst ++ gm_get src"
proof (cases dst)
  case None
  then show "gm_merge dst src = Ret m \<Longrightarrow> ?thesis"
    by (auto simp: gm_merge_def gm_len_0_iff split: if_splits)
next
  case (Some f)
  then show "gm_merge dst src = Ret m \<Longrightarrow> ?thesis"
    by (auto simp: gm_merge_Some fmadd.rep_eq split: option.splits)
qed

lemma gm_merge_Some_get: "\<exists>m. gm_merge (Some f) src = Ret (Some m)
    \<and> fmlookup m = fmlookup f ++ gm_get src"
  by (cases src) (auto simp: gm_merge_Some fmadd.rep_eq)

lemma range_assign_Some:
  "\<exists>g. range_assign (Some f) kvs = Ret (Some g) \<and> fmlookup g = fmlookup f ++ map_of (rev kvs)"
proof (induction kvs arbitrary: f)
  case (Cons kv kvs)
  obtain k v where "kv = (k, v)" by fastforce
  moreover obtain g where "range_assign (Some (fmupd k v f)) kvs = Ret (Some g)"
    and "fmlookup g = fmlookup (fmupd k v f) ++ map_of (rev kvs)"
    using Cons.IH [of "fmupd k v f"] by blast
  ultimately show ?case by (auto simp: map_add_def fun_eq_iff split: option.splits)
qed simp

lemma map_of_rev_unique: "distinct (map fst kvs) \<Longrightarrow> map_of (rev kvs) = map_of kvs"
proof (induction kvs)
  case (Cons kv kvs)
  then have "map_of kvs (fst kv) = None"
    by (simp add: map_of_eq_None_iff)
  with Cons show ?case
    by (auto simp: map_add_def fun_eq_iff split: option.splits)
qed simp

lemma range_assign_merge:
  assumes "enumerates src kvs"
  shows "range_assign dst kvs = gm_merge dst src"
proof (cases dst)
  case None
  have "gm_len src = 0 \<longleftrightarrow> kvs = []"
    using assms by (metis enumerates_def gm_len_0_iff map_of_eq_empty_iff)
  with None show ?thesis by (cases kvs) (auto simp: gm_merge_def)
next
  case (Some f)
  have rev: "map_of (rev kvs) = gm_get src"
    using assms by (simp add: enumerates_def map_of_rev_unique)
  obtain g where g: "range_assign (Some f) kvs = Ret (Some g)"
    "fmlookup g = fmlookup f ++ gm_get src"
    using range_assign_Some [of f kvs] rev by auto
  obtain m where m: "gm_merge (Some f) src = Ret (Some m)" "fmlookup m = fmlookup f ++ gm_get src"
    using gm_merge_Some_get by blast
  from g(2) m(2) have "g = m" by (simp add: fmap_ext)
  with g(1) m(1) Some show ?thesis by simp
qed

text \<open>
  Every map has an enumeration: the sorted one is a concrete choice the witnesses use.
\<close>

definition sorted_range :: "('k::linorder, 'v) gomap \<Rightarrow> ('k \<times> 'v) list" where
  "sorted_range m = (case m of None \<Rightarrow> [] | Some f \<Rightarrow> sorted_list_of_fmap f)"

lemma enumerates_sorted_range: "enumerates m (sorted_range m)"
proof (cases m)
  case (Some f)
  have "map fst (sorted_list_of_fmap f) = sorted_list_of_fset (fmdom f)"
    by (simp add: sorted_list_of_fmap_def comp_def)
  with Some show ?thesis
    by (simp add: enumerates_def sorted_range_def map_of_sorted_list sorted_list_of_fset.rep_eq)
qed (simp add: enumerates_def sorted_range_def)

lemma sorted_sorted_range: "sorted (map fst (sorted_range m))"
  by (cases m) (simp_all add: sorted_range_def sorted_list_of_fmap_def comp_def
      sorted_list_of_fset.rep_eq)

lemma enumerates_length: "enumerates m kvs \<Longrightarrow> length kvs = gm_len m"
proof -
  assume *: "enumerates m kvs"
  then have "set (map fst kvs) = dom (gm_get m)"
    by (simp add: enumerates_def dom_map_of_conv_image_fst flip: fun_eq_iff)
       (metis dom_map_of_conv_image_fst)
  moreover have "dom (gm_get m) = (case m of None \<Rightarrow> {} | Some f \<Rightarrow> fset (fmdom f))"
    by (cases m) (auto simp: fmdom.rep_eq)
  ultimately show ?thesis
    using * distinct_card [of "map fst kvs"]
    by (cases m) (auto simp: enumerates_def fcard.rep_eq)
qed

lemma enumerates_set: "enumerates m kvs \<Longrightarrow> (k, v) \<in> set kvs \<longleftrightarrow> gm_get m k = Some v"
  using map_of_eq_Some_iff [of kvs k v] by (simp add: enumerates_def)

text \<open>Two enumerations of a map differ in their order only.\<close>

lemma enumerates_mset: "enumerates m xs \<Longrightarrow> enumerates m ys \<Longrightarrow> mset xs = mset ys"
  using enumerates_set [of m xs] enumerates_set [of m ys]
  by (intro set_eq_iff_mset_eq_distinct [THEN iffD1])
     (auto simp: enumerates_def distinct_map)

section \<open>Loops that stop at the first match\<close>

text \<open>
  Several loops of the packages have one shape: walk a slice in order, return at the first
  element that passes a test, and return something else when none does (\<open>Carrier.Get\<close>,
  \<open>routerEntry.matches\<close>, \<open>findSubscription\<close>, \<open>resolveMapping\<close>). The locale is that shape; each of
  the loops is an interpretation, and what first-match-wins means is proved once.
\<close>

locale first_match =
  fixes run :: "'r list \<Rightarrow> 'o"
    and accepts :: "'r \<Rightarrow> bool"
    and hit :: "'r \<Rightarrow> 'o"
    and miss :: 'o
  assumes run_Nil: "run [] = miss"
    and run_Cons: "run (r # rs) = (if accepts r then hit r else run rs)"
begin

lemma run_find: "run rs = (case List.find accepts rs of None \<Rightarrow> miss | Some r \<Rightarrow> hit r)"
  by (induction rs) (simp_all add: run_Nil run_Cons)

lemma run_miss: "\<forall>r \<in> set rs. \<not> accepts r \<Longrightarrow> run rs = miss"
  by (induction rs) (simp_all add: run_Nil run_Cons)

lemma run_first: "\<forall>r \<in> set pre. \<not> accepts r \<Longrightarrow> accepts r \<Longrightarrow> run (pre @ r # post) = hit r"
  by (induction pre) (simp_all add: run_Cons)

lemma run_append: "run (rs @ qs) = (if \<exists>r \<in> set rs. accepts r then run rs else run qs)"
  by (induction rs) (simp_all add: run_Nil run_Cons)

lemma run_cases:
  obtains (Miss) "\<forall>r \<in> set rs. \<not> accepts r" "run rs = miss"
  | (Hit) pre r post where "rs = pre @ r # post" "\<forall>q \<in> set pre. \<not> accepts q" "accepts r"
      "run rs = hit r"
proof (cases "\<exists>r \<in> set rs. accepts r")
  case True
  then obtain pre r post where "rs = pre @ r # post" "accepts r" "\<forall>q \<in> set pre. \<not> accepts q"
    using split_list_first_prop [OF True] by blast
  then show thesis using Hit run_first by blast
next
  case False
  then show thesis using Miss run_miss by blast
qed

text \<open>Where the two outcomes cannot be confused, the loop finds something iff something matches.\<close>

lemma run_hit_iff: "(\<And>r. hit r \<noteq> miss) \<Longrightarrow> run rs \<noteq> miss \<longleftrightarrow> (\<exists>r \<in> set rs. accepts r)"
  using run_miss [of rs] by (cases rs rule: run_cases) auto

end

section \<open>Invariants of step relations\<close>

text \<open>
  A machine is a start state and a step relation; a predicate that holds at the start and is
  kept by every step holds in every state that can be reached. The state machines of the
  development interpret it: a dispatch and calls of \<open>Route\<close> among concurrent changes, the life of
  a client, calls of \<open>Start\<close> and \<open>Stop\<close> by several goroutines, writers of a connection.
\<close>

locale stepped_invariant =
  fixes start :: 's
    and step :: "'s \<Rightarrow> 's \<Rightarrow> bool"
    and inv :: "'s \<Rightarrow> bool"
  assumes inv_start: "inv start"
    and inv_step: "inv s \<Longrightarrow> step s t \<Longrightarrow> inv t"
begin

lemma reachable_inv: "step\<^sup>*\<^sup>* start s \<Longrightarrow> inv s"
  by (induction rule: rtranclp_induct) (auto intro: inv_start inv_step)

lemma steps_inv: "step\<^sup>*\<^sup>* s t \<Longrightarrow> inv s \<Longrightarrow> inv t"
  by (induction rule: rtranclp_induct) (auto intro: inv_step)

end

text \<open>
  A machine that an abstract machine simulates: what the abstract one can never do, it never
  does.
\<close>

locale simulation = stepped_invariant start step inv
  for start :: 's and step :: "'s \<Rightarrow> 's \<Rightarrow> bool" and inv :: "'s \<Rightarrow> bool" +
  fixes abs :: "'s \<Rightarrow> 'a"
    and astep :: "'a \<Rightarrow> 'a \<Rightarrow> bool"
  assumes sim_step: "inv s \<Longrightarrow> step s t \<Longrightarrow> astep (abs s) (abs t)"
begin

lemma reachable_simulated: "step\<^sup>*\<^sup>* start s \<Longrightarrow> astep\<^sup>*\<^sup>* (abs start) (abs s)"
proof (induction rule: rtranclp_induct)
  case (step t u)
  then show ?case
    using sim_step [OF reachable_inv [OF step.hyps(1)] step.hyps(2)] by simp
qed simp

lemma abstract_safety:
  "(\<And>a. astep\<^sup>*\<^sup>* (abs start) a \<Longrightarrow> safe a) \<Longrightarrow> step\<^sup>*\<^sup>* start s \<Longrightarrow> safe (abs s)"
  by (simp add: reachable_simulated)

end

end
