(* ===== verification/Carrier.thy ===== *)
theory Carrier
  imports Prelude
begin

text \<open>
  The package carrier (src/carrier/carrier.go): a W3C trace-context carrier over the list of
  MQTT 5 user properties. The locale \<open>text_map_carrier\<close> is the contract OpenTelemetry's
  propagators rely on; it is interpreted on the operations of the package, here on lists and in
  \<open>Headers\<close> on slices, and everything the publisher and the subscriber need of a carrier follows
  from it.
\<close>

section \<open>The carrier\<close>

record user_property =
  Key :: string
  Value :: string

type_synonym user_properties = "user_property list"

abbreviation user :: "string \<Rightarrow> string \<Rightarrow> user_property" where
  "user k v \<equiv> \<lparr>Key = k, Value = v\<rparr>"

text \<open>User properties are ordered by key, then by value.\<close>

instantiation user_property_ext :: (linorder) linorder
begin

definition less_eq_user_property_ext ::
  "'a user_property_ext \<Rightarrow> 'a user_property_ext \<Rightarrow> bool" where
  "less_eq_user_property_ext p q \<longleftrightarrow>
     Key p < Key q \<or> Key p = Key q \<and>
       (Value p < Value q \<or> Value p = Value q \<and> user_property.more p \<le> user_property.more q)"

definition less_user_property_ext ::
  "'a user_property_ext \<Rightarrow> 'a user_property_ext \<Rightarrow> bool" where
  "less_user_property_ext p q \<longleftrightarrow> p \<le> q \<and> \<not> q \<le> (p :: 'a user_property_ext)"

instance
  by intro_classes (auto simp: less_eq_user_property_ext_def less_user_property_ext_def)

end

record carrier =
  props :: user_properties

definition New :: "user_properties \<Rightarrow> carrier" where
  "New ps = \<lparr>props = ps\<rparr>"

fun get_loop :: "user_properties \<Rightarrow> string \<Rightarrow> string" where
  "get_loop [] key = ''''"
| "get_loop (p # ps) key = (if Key p = key then Value p else get_loop ps key)"

definition Get :: "carrier \<Rightarrow> string \<Rightarrow> string" where
  "Get c key = get_loop (props c) key"

fun set_loop :: "user_properties \<Rightarrow> string \<Rightarrow> string \<Rightarrow> user_properties" where
  "set_loop [] key val = [user key val]"
| "set_loop (p # ps) key val =
     (if Key p = key then p\<lparr>Value := val\<rparr> # ps else p # set_loop ps key val)"

definition Set :: "carrier \<Rightarrow> string \<Rightarrow> string \<Rightarrow> carrier" where
  "Set c key val = c\<lparr>props := set_loop (props c) key val\<rparr>"

definition Keys :: "carrier \<Rightarrow> string list" where
  "Keys c = map Key (props c)"

definition UserProperties :: "carrier \<Rightarrow> user_properties" where
  "UserProperties c = props c"

section \<open>The contract of a text map carrier\<close>

locale text_map_carrier =
  fixes get :: "'c \<Rightarrow> string \<Rightarrow> string"
    and put :: "'c \<Rightarrow> string \<Rightarrow> string \<Rightarrow> 'c"
    and keys :: "'c \<Rightarrow> string list"
    and ok :: "'c \<Rightarrow> bool"
  assumes get_put: "ok c \<Longrightarrow> get (put c k v) k' = (if k' = k then v else get c k')"
    and keys_put: "ok c \<Longrightarrow> keys (put c k v) = (if k \<in> set (keys c) then keys c else keys c @ [k])"
    and get_absent: "ok c \<Longrightarrow> k \<notin> set (keys c) \<Longrightarrow> get c k = ''''"
    and ok_put: "ok c \<Longrightarrow> ok (put c k v)"
begin

text \<open>A propagator's \<open>Inject\<close> writes a list of headers through the interface.\<close>

lemma get_put_all:
  "ok c \<Longrightarrow> get (foldl (\<lambda>c (k, v). put c k v) c kvs) k =
     (case map_of (rev kvs) k of None \<Rightarrow> get c k | Some v \<Rightarrow> v)"
proof (induction kvs arbitrary: c)
  case (Cons kv kvs)
  then show ?case
    by (cases kv) (auto simp: get_put ok_put map_add_def split: option.splits)
qed simp

lemma keys_put_all:
  "ok c \<Longrightarrow> \<exists>new. keys (foldl (\<lambda>c (k, v). put c k v) c kvs) = keys c @ new
     \<and> distinct new \<and> set new = fst ` set kvs - set (keys c)"
proof (induction kvs arbitrary: c)
  case (Cons kv kvs)
  obtain k v where kv: "kv = (k, v)" by fastforce
  obtain new where new: "keys (foldl (\<lambda>c (k, v). put c k v) (put c k v) kvs) = keys (put c k v) @ new"
    "distinct new" "set new = fst ` set kvs - set (keys (put c k v))"
    using Cons.IH [OF ok_put [OF Cons.prems]] by blast
  show ?case
  proof (cases "k \<in> set (keys c)")
    case True
    with new kv Cons.prems show ?thesis by (auto simp: keys_put)
  next
    case False
    with new kv Cons.prems show ?thesis by (auto simp: keys_put intro!: exI [of _ "k # new"])
  qed
qed simp

lemma distinct_put_all:
  "ok c \<Longrightarrow> distinct (keys c) \<Longrightarrow> distinct (keys (foldl (\<lambda>c (k, v). put c k v) c kvs))"
proof (induction kvs arbitrary: c)
  case (Cons kv kvs)
  then show ?case by (cases kv) (simp add: keys_put ok_put)
qed simp

end

section \<open>The package satisfies the contract\<close>

lemma get_set_loop:
  "get_loop (set_loop ps k v) k' = (if k' = k then v else get_loop ps k')"
  by (induction ps) auto

lemma keys_set_loop:
  "map Key (set_loop ps k v) = (if k \<in> Key ` set ps then map Key ps else map Key ps @ [k])"
  by (induction ps) auto

interpretation lookup: first_match "\<lambda>ps. get_loop ps key" "\<lambda>p. Key p = key" Value "''''"
  for key
  by unfold_locales simp_all

lemma get_loop_absent: "k \<notin> Key ` set ps \<Longrightarrow> get_loop ps k = ''''"
  by (rule lookup.run_miss) auto

interpretation mqtt: text_map_carrier Get Set Keys "\<lambda>c. True"
  by unfold_locales (auto simp: Get_def Set_def Keys_def get_set_loop keys_set_loop get_loop_absent)

definition set_all :: "carrier \<Rightarrow> (string \<times> string) list \<Rightarrow> carrier" where
  "set_all c kvs = foldl (\<lambda>c (k, v). Set c k v) c kvs"

text \<open>The carrier of a property list, read as a map: the first entry of a key counts.\<close>

definition first_value :: "user_properties \<Rightarrow> string \<Rightarrow> string option" where
  "first_value ps k = map_of (map (\<lambda>p. (Key p, Value p)) ps) k"

lemma first_value_set_loop:
  "first_value (set_loop ps k v) k' = (if k' = k then Some v else first_value ps k')"
  by (induction ps) (auto simp: first_value_def)

lemma first_value_set_all:
  "first_value (props (set_all c kvs)) k =
     (case map_of (rev kvs) k of None \<Rightarrow> first_value (props c) k | Some v \<Rightarrow> Some v)"
proof (induction kvs arbitrary: c)
  case (Cons kv kvs)
  then show ?case
    by (cases kv)
       (auto simp: set_all_def Set_def first_value_set_loop map_add_def split: option.splits)
qed (simp add: set_all_def)

lemma distinct_set_all: "distinct (Keys c) \<Longrightarrow> distinct (Keys (set_all c kvs))"
  unfolding set_all_def by (rule mqtt.distinct_put_all [OF TrueI])

section \<open>Properties\<close>

text \<open>The properties that were there before: of those with one key, the first has the value set last
  for it, and any other is as it was.\<close>

definition updated :: "user_properties \<Rightarrow> (string \<times> string) list \<Rightarrow> user_properties" where
  "updated ps kvs = map (\<lambda>i.
     if Key (ps ! i) \<in> Key ` set (take i ps) then ps ! i
     else case map_of (rev kvs) (Key (ps ! i)) of
       None \<Rightarrow> ps ! i | Some v \<Rightarrow> (ps ! i)\<lparr>Value := v\<rparr>) [0..<length ps]"

lemma set_loop_nth:
  "i < length ps \<Longrightarrow> set_loop ps k v ! i =
     (if Key (ps ! i) = k \<and> k \<notin> Key ` set (take i ps) then (ps ! i)\<lparr>Value := v\<rparr> else ps ! i)"
  by (induction ps arbitrary: i) (auto simp: nth_Cons split: nat.split)

lemma length_set_loop: "length ps \<le> length (set_loop ps k v)"
  by (induction ps) auto

lemma Key_updated: "map Key (updated ps kvs) = map Key ps"
  by (auto simp: updated_def intro!: nth_equalityI split: option.split)

lemma set_all_updated:
  "\<exists>new. props (foldl (\<lambda>c (k, v). Set c k v) (New ps) kvs) = updated ps kvs @ new"
proof (induction kvs rule: rev_induct)
  case Nil
  have "updated ps [] = ps" by (auto simp: updated_def intro: nth_equalityI)
  then show ?case by (simp add: New_def)
next
  case (snoc kv kvs)
  obtain k v where kv: "kv = (k, v)" by fastforce
  let ?qs = "props (foldl (\<lambda>c (k, v). Set c k v) (New ps) kvs)"
  obtain new where qs: "?qs = updated ps kvs @ new" using snoc by blast
  have len: "length (updated ps kvs) = length ps" by (simp add: updated_def)
  have keys: "Key ` set (take i ?qs) = Key ` set (take i ps)" if "i \<le> length ps" for i
    using that arg_cong [OF Key_updated, of "\<lambda>ks. set (take i ks)" ps kvs]
    by (simp add: qs len take_map)
  have "take (length ps) (set_loop ?qs k v) = updated ps (kvs @ [kv])"
  proof (rule nth_equalityI)
    show "length (take (length ps) (set_loop ?qs k v)) = length (updated ps (kvs @ [kv]))"
      using length_set_loop [of ?qs k v] by (simp add: qs len) (simp add: updated_def)
    fix i assume "i < length (take (length ps) (set_loop ?qs k v))"
    then have i: "i < length ps" by simp
    then have "?qs ! i = updated ps kvs ! i" "i < length ?qs"
      by (simp_all add: qs len nth_append)
    then show "take (length ps) (set_loop ?qs k v) ! i = updated ps (kvs @ [kv]) ! i"
      using i keys [of i] set_loop_nth [of i ?qs k v] by (auto simp: updated_def kv split: option.split)
  qed
  then have "set_loop ?qs k v = updated ps (kvs @ [kv]) @ drop (length ps) (set_loop ?qs k v)"
    by (metis append_take_drop_id)
  moreover have "props (foldl (\<lambda>c (k, v). Set c k v) (New ps) (kvs @ [kv])) = set_loop ?qs k v"
    by (simp add: kv Set_def [of "foldl _ _ _"])
  ultimately show ?case by metis
qed

text \<open>C36: the carrier holds what is injected into it and keeps what it was made from. After any
  sequence of \<open>Set\<close> calls on a carrier made from any property list, duplicates included, \<open>Get\<close>
  of a key is the last value set for it, or else what it was. The properties that were there
  are still in place, and of those only the first of each key that was set has changed, to the
  last value set for it; after them comes exactly one for every key that was not there before.\<close>

theorem carrier_injection:
  "let c = foldl (\<lambda>c (k, v). Set c k v) (New ps) kvs
   in Get c k = (case map_of (rev kvs) k of None \<Rightarrow> Get (New ps) k | Some v \<Rightarrow> v)
     \<and> (\<exists>new. UserProperties c = updated ps kvs @ new \<and> distinct (map Key new)
          \<and> Key ` set new = fst ` set kvs - Key ` set ps)"
proof -
  let ?c = "foldl (\<lambda>c (k, v). Set c k v) (New ps) kvs"
  obtain new where new: "props ?c = updated ps kvs @ new"
    using set_all_updated by blast
  moreover obtain ks where "Keys ?c = map Key ps @ ks" "distinct ks" "set ks = fst ` set kvs - Key ` set ps"
    using mqtt.keys_put_all [OF TrueI, of "New ps" kvs] by (auto simp: Keys_def New_def)
  ultimately have "distinct (map Key new) \<and> Key ` set new = fst ` set kvs - Key ` set ps"
    by (auto simp: Keys_def Key_updated simp flip: set_map)
  with new show ?thesis
    by (simp add: Let_def mqtt.get_put_all UserProperties_def)
qed

end
