(* ===== verification/Runtime.thy ===== *)
theory Runtime
  imports Carrier
begin

text \<open>
  The code the packages call into and do not contain: the topic matcher of vinculum-bus, the
  wire formats of vinculum-wire, OpenTelemetry's propagator and tracer, Go's own choice of map
  iteration order and the clock. It is a parameter of the model, the record \<open>runtime\<close>, which
  every operation takes; nothing is assumed of it here. What a property needs of it is a named
  hypothesis: \<open>ranges_ok\<close> (an iteration visits every entry once) and
  \<open>injects_headers\<close> (a propagator writes its own headers, through \<open>Set\<close>).

  The packets and messages of paho, of which the packages read and fill the fields below, are
  records.
\<close>

section \<open>MQTT messages\<close>

record publish_properties =
  User :: user_properties

record publish =
  pub_Topic :: string
  pub_QoS :: byte
  pub_Retain :: bool
  pub_Payload :: payload
  pub_Properties :: "publish_properties option"

record subscribe_options =
  so_Topic :: string
  so_QoS :: byte

section \<open>Wire formats\<close>

record ('m, 'e) wire_format =
  wf_Name :: string
  wf_Serialize :: "'m any \<Rightarrow> 'e + payload"
  wf_Deserialize :: "payload \<Rightarrow> 'e + 'm any"

text \<open>What an observer of decode failures is handed.\<close>

record 'e decode_error =
  de_Raw :: payload
  de_Err :: 'e
  de_Format :: string
  de_Topic :: string
  de_Attrs :: "(string, string) gomap"

section \<open>Tracing\<close>

text \<open>A tracer provider, a hook or a TLS configuration is opaque: the model keeps its name.\<close>

type_synonym opaque = string

datatype span_kind = SpanKindProducer | SpanKindConsumer

datatype span_attr =
    MessagingSystem string
  | MessagingDestinationName string
  | MessagingOperationTypeDeliver
  | MessagingOperationTypePublish
  | MessagingOperationName string

record 'c span_opts =
  sp_NewRoot :: bool
  sp_Kind :: span_kind
  sp_Attributes :: "span_attr list"
  sp_Link :: "'c option"

text \<open>
  The provider of a span is the configured one, or the global one where none is configured
  (\<open>None\<close>). A span has a tracer name and a name, may record an error (\<open>RecordError\<close> and
  \<open>SetStatus\<close>), and ends.
\<close>

datatype ('c, 'e) span_event =
    SpanStart "opaque option" string string "'c span_opts"
  | SpanRecordError 'e
  | SpanSetStatusError 'e
  | SpanEnd

text \<open>
  The life of one span: started once under its name, marked with the error where there is
  one and only then, and ended once.
\<close>

definition one_span ::
  "opaque option \<Rightarrow> string \<Rightarrow> string \<Rightarrow> 'e option \<Rightarrow> ('c, 'e) span_event list \<Rightarrow> bool" where
  "one_span provider tracer name err evs \<longleftrightarrow>
     (case evs of
        SpanStart provider' tracer' name' opts # rest \<Rightarrow>
          provider' = provider \<and> tracer' = tracer \<and> name' = name \<and>
          rest = (case err of None \<Rightarrow> [] | Some e \<Rightarrow> [SpanRecordError e, SpanSetStatusError e])
            @ [SpanEnd]
      | _ \<Rightarrow> False)"

section \<open>The parameters of the model\<close>

record 'c runtime =
  Matches :: "string \<Rightarrow> string \<Rightarrow> bool"
  Extract :: "string \<Rightarrow> string \<Rightarrow> (string, string) gomap"
  prop_Inject :: "'c \<Rightarrow> carrier \<Rightarrow> carrier"
  prop_Extract :: "carrier \<Rightarrow> 'c"
  span_ctx_valid :: "'c \<Rightarrow> bool"
  baggage_len :: "'c \<Rightarrow> int"
  with_baggage :: "'c \<Rightarrow> 'c \<Rightarrow> 'c"
  span_ctx :: "opaque option \<Rightarrow> 'c \<Rightarrow> string \<Rightarrow> 'c"
  range_fields :: "(string, string) gomap \<Rightarrow> (string \<times> string) list"
  since_start :: goint

text \<open>Go's iteration over a map visits each of its entries once, in some order.\<close>

definition ranges_ok :: "'c runtime \<Rightarrow> bool" where
  "ranges_ok rt \<longleftrightarrow> (\<forall>m. enumerates m (range_fields rt m))"

text \<open>
  The headers of W3C trace context and baggage (src/subscriber/subscriber.go, traceHeaders),
  which the subscriber keeps out of the fields.
\<close>

definition traceHeaders :: "string list" where
  "traceHeaders = [''traceparent'', ''tracestate'', ''baggage'']"

text \<open>
  OpenTelemetry's contract for \<open>TextMapPropagator.Inject\<close>: it sets key-value pairs in the
  carrier, and only keys that the propagator reports as its fields; with the W3C propagators
  those are the trace headers.
\<close>

definition injects_headers :: "'c runtime \<Rightarrow> bool" where
  "injects_headers rt \<longleftrightarrow>
     (\<forall>ctx c. \<exists>kvs. prop_Inject rt ctx c = set_all c kvs \<and> fst ` set kvs \<subseteq> set traceHeaders)"

text \<open>
  Under \<open>ranges_ok\<close> every assignment loop over a map is a merge, whatever order it takes.
\<close>

lemma ranges_ok_merge:
  "ranges_ok rt \<Longrightarrow> range_assign dst (range_fields rt src) = gm_merge dst src"
  by (rule range_assign_merge) (simp add: ranges_ok_def)

lemma injects_headersE:
  assumes "injects_headers rt"
  obtains kvs where "prop_Inject rt ctx c = set_all c kvs" "fst ` set kvs \<subseteq> set traceHeaders"
  using assms unfolding injects_headers_def by blast

lemma inject_first_value:
  assumes "injects_headers rt" and "k \<notin> set traceHeaders"
  shows "first_value (UserProperties (prop_Inject rt ctx c)) k = first_value (props c) k"
proof -
  obtain kvs where kvs: "prop_Inject rt ctx c = set_all c kvs" "fst ` set kvs \<subseteq> set traceHeaders"
    using assms(1) by (rule injects_headersE)
  have "map_of (rev kvs) k = None"
    using kvs(2) assms(2) by (auto simp: map_of_eq_None_iff)
  then show ?thesis by (simp add: kvs(1) UserProperties_def first_value_set_all)
qed

lemma inject_distinct:
  assumes "injects_headers rt" and "distinct (Keys c)"
  shows "distinct (Keys (prop_Inject rt ctx c))"
  using injects_headersE [OF assms(1)] distinct_set_all [OF assms(2)] by metis

section \<open>A concrete runtime\<close>

text \<open>
  An instance the witnesses evaluate: the pattern \<open>#\<close> matches everything, \<open>+id\<close> matches
  everything and extracts the topic, any other pattern matches itself; contexts are strings;
  the propagator sets one header; maps are visited in the order of their keys.
\<close>

definition example_runtime :: "string runtime" where
  "example_runtime = \<lparr>
     Matches = (\<lambda>p t. p = t \<or> p = ''#'' \<or> p = ''+id''),
     Extract = (\<lambda>p t. if p = ''+id'' then Some (fmap_of_list [(''id'', t)]) else None),
     prop_Inject = (\<lambda>ctx c. Set c ''traceparent'' ctx),
     prop_Extract = (\<lambda>c. Get c ''traceparent''),
     span_ctx_valid = (\<lambda>ctx. ctx \<noteq> ''''),
     baggage_len = (\<lambda>ctx. 0),
     with_baggage = (\<lambda>ctx src. ctx),
     span_ctx = (\<lambda>tp ctx name. name),
     range_fields = sorted_range,
     since_start = 7\<rparr>"

lemma example_runtime_simps [simp]:
  "Matches example_runtime p t \<longleftrightarrow> p = t \<or> p = ''#'' \<or> p = ''+id''"
  "Extract example_runtime p t = (if p = ''+id'' then Some (fmap_of_list [(''id'', t)]) else None)"
  "span_ctx example_runtime tp ctx name = name"
  "since_start example_runtime = 7"
  "prop_Inject example_runtime ctx c = Set c ''traceparent'' ctx"
  "prop_Extract example_runtime c = Get c ''traceparent''"
  "range_fields example_runtime = sorted_range"
  by (simp_all add: example_runtime_def)

lemma example_ranges_ok: "ranges_ok example_runtime"
  by (simp add: ranges_ok_def enumerates_sorted_range)

lemma example_injects_headers: "injects_headers example_runtime"
  unfolding injects_headers_def
proof (intro allI)
  fix ctx c
  have "prop_Inject example_runtime ctx c = set_all c [(''traceparent'', ctx)]"
    by (simp add: set_all_def)
  then show "\<exists>kvs. prop_Inject example_runtime ctx c = set_all c kvs
      \<and> fst ` set kvs \<subseteq> set traceHeaders"
    by (intro exI [of _ "[(''traceparent'', ctx)]"]) (simp add: traceHeaders_def)
qed

text \<open>A wire format of single bytes, which fails on anything else.\<close>

definition example_wire :: "(byte, string) wire_format" where
  "example_wire = \<lparr>wf_Name = ''byte'',
     wf_Serialize = (\<lambda>m. case m of None \<Rightarrow> Inl ''nothing'' | Some x \<Rightarrow> Inr (Some [x])),
     wf_Deserialize = (\<lambda>b. case b of Some [x] \<Rightarrow> Inr (Some x) | _ \<Rightarrow> Inl ''not one byte'')\<rparr>"

end
