(* ===== verification/Metrics.thy ===== *)
theory Metrics
  imports Runtime
begin

text \<open>
  The metrics of the three packages (src/client/metrics.go, src/publisher/metrics.go,
  src/subscriber/metrics.go). A metrics object is nil when no meter is configured, and every
  method on nil is a no-op: the receiver is an option. A measurement is the instrument, the
  value and the attributes, in the order in which the code passes them.
\<close>

section \<open>Instruments and measurements\<close>

datatype instrument_kind = Int64Counter | Float64Gauge | Float64Histogram

record instrument =
  i_Kind :: instrument_kind
  i_Name :: string
  i_Unit :: string
  i_Description :: string

text \<open>A counter is incremented, a gauge set, and a histogram records a duration in seconds.\<close>

datatype reading = Add int | Gauge int | Seconds goint

type_synonym attribute = "string \<times> string"

record measurement =
  m_Instrument :: instrument
  m_Reading :: reading
  m_Attrs :: "attribute list"

text \<open>A meter makes instruments; which meter it is matters only through being there or not.\<close>

type_synonym meter = opaque

definition topicAttr :: "string \<Rightarrow> attribute list" where
  "topicAttr topic = [(''messaging.system'', ''mqtt''), (''messaging.destination.name'', topic)]"

section \<open>Publisher metrics\<close>

record publisher_metrics =
  pm_messagesSent :: instrument
  pm_errors :: instrument
  pm_publishDuration :: instrument
  pm_clientTag :: attribute

definition NewPublisherMetrics :: "string \<Rightarrow> meter option \<Rightarrow> publisher_metrics option" where
  "NewPublisherMetrics clientName meter =
     (case meter of
        None \<Rightarrow> None
      | Some _ \<Rightarrow> Some \<lparr>
          pm_messagesSent = \<lparr>i_Kind = Int64Counter, i_Name = ''messaging.client.sent.messages'',
            i_Unit = ''{message}'', i_Description = ''Messages sent by the MQTT publisher''\<rparr>,
          pm_errors = \<lparr>i_Kind = Int64Counter, i_Name = ''mqtt.publisher.errors'',
            i_Unit = ''{error}'', i_Description = ''Errors encountered during MQTT publish''\<rparr>,
          pm_publishDuration = \<lparr>i_Kind = Float64Histogram,
            i_Name = ''messaging.client.operation.duration'',
            i_Unit = ''s'', i_Description = ''Duration of MQTT publish operations''\<rparr>,
          pm_clientTag = (''vinculum.client.name'', clientName)\<rparr>)"

definition PM_RecordSent :: "publisher_metrics option \<Rightarrow> string \<Rightarrow> measurement list" where
  "PM_RecordSent m topic =
     (case m of
        None \<Rightarrow> []
      | Some p \<Rightarrow> [\<lparr>m_Instrument = pm_messagesSent p, m_Reading = Add 1,
          m_Attrs = topicAttr topic @ [(''messaging.operation.name'', ''send'')]
            @ [pm_clientTag p]\<rparr>])"

definition PM_RecordError :: "publisher_metrics option \<Rightarrow> string \<Rightarrow> measurement list" where
  "PM_RecordError m topic =
     (case m of
        None \<Rightarrow> []
      | Some p \<Rightarrow> [\<lparr>m_Instrument = pm_errors p, m_Reading = Add 1,
          m_Attrs = topicAttr topic @ [pm_clientTag p]\<rparr>])"

definition PM_RecordPublishDuration ::
  "publisher_metrics option \<Rightarrow> string \<Rightarrow> goint \<Rightarrow> measurement list" where
  "PM_RecordPublishDuration m topic d =
     (case m of
        None \<Rightarrow> []
      | Some p \<Rightarrow> [\<lparr>m_Instrument = pm_publishDuration p, m_Reading = Seconds d,
          m_Attrs = topicAttr topic @ [(''messaging.operation.name'', ''send'')]
            @ [pm_clientTag p]\<rparr>])"

section \<open>Subscriber metrics\<close>

text \<open>The package has a function of that name too.\<close>

definition sub_topicAttr :: "string \<Rightarrow> attribute list" where
  "sub_topicAttr topic = [(''messaging.system'', ''mqtt''), (''messaging.destination.name'', topic)]"

record subscriber_metrics =
  sm_messagesReceived :: instrument
  sm_errors :: instrument
  sm_processDuration :: instrument
  sm_clientTag :: attribute

definition NewSubscriberMetrics :: "string \<Rightarrow> meter option \<Rightarrow> subscriber_metrics option" where
  "NewSubscriberMetrics clientName meter =
     (case meter of
        None \<Rightarrow> None
      | Some _ \<Rightarrow> Some \<lparr>
          sm_messagesReceived = \<lparr>i_Kind = Int64Counter,
            i_Name = ''messaging.client.consumed.messages'',
            i_Unit = ''{message}'', i_Description = ''Messages received by the MQTT subscriber''\<rparr>,
          sm_errors = \<lparr>i_Kind = Int64Counter, i_Name = ''mqtt.subscriber.errors'',
            i_Unit = ''{error}'',
            i_Description = ''Errors encountered during MQTT message processing''\<rparr>,
          sm_processDuration = \<lparr>i_Kind = Float64Histogram,
            i_Name = ''messaging.process.duration'',
            i_Unit = ''s'', i_Description = ''Duration of MQTT message processing''\<rparr>,
          sm_clientTag = (''vinculum.client.name'', clientName)\<rparr>)"

definition SM_RecordReceived :: "subscriber_metrics option \<Rightarrow> string \<Rightarrow> measurement list" where
  "SM_RecordReceived m topic =
     (case m of
        None \<Rightarrow> []
      | Some s \<Rightarrow> [\<lparr>m_Instrument = sm_messagesReceived s, m_Reading = Add 1,
          m_Attrs = sub_topicAttr topic @ [sm_clientTag s]\<rparr>])"

definition SM_RecordError ::
  "subscriber_metrics option \<Rightarrow> string \<Rightarrow> string \<Rightarrow> measurement list" where
  "SM_RecordError m topic errType =
     (case m of
        None \<Rightarrow> []
      | Some s \<Rightarrow>
          (let attrs = [sm_clientTag s];
               attrs = (if errType \<noteq> '''' then attrs @ [(''error.type'', errType)] else attrs)
           in [\<lparr>m_Instrument = sm_errors s, m_Reading = Add 1,
                m_Attrs = sub_topicAttr topic @ attrs\<rparr>]))"

definition SM_RecordProcessDuration ::
  "subscriber_metrics option \<Rightarrow> string \<Rightarrow> goint \<Rightarrow> measurement list" where
  "SM_RecordProcessDuration m topic d =
     (case m of
        None \<Rightarrow> []
      | Some s \<Rightarrow> [\<lparr>m_Instrument = sm_processDuration s, m_Reading = Seconds d,
          m_Attrs = sub_topicAttr topic @ [sm_clientTag s]\<rparr>])"

section \<open>Client metrics\<close>

record client_metrics =
  cm_connected :: instrument
  cm_reconnects :: instrument
  cm_clientTag :: attribute

definition NewClientMetrics :: "string \<Rightarrow> meter option \<Rightarrow> client_metrics option" where
  "NewClientMetrics clientName meter =
     (case meter of
        None \<Rightarrow> None
      | Some _ \<Rightarrow> Some \<lparr>
          cm_connected = \<lparr>i_Kind = Float64Gauge, i_Name = ''mqtt.client.connected'',
            i_Unit = ''1'',
            i_Description = ''MQTT client connection status (1=connected, 0=disconnected)''\<rparr>,
          cm_reconnects = \<lparr>i_Kind = Int64Counter, i_Name = ''mqtt.client.reconnections'',
            i_Unit = ''{reconnection}'', i_Description = ''MQTT client reconnection attempts''\<rparr>,
          cm_clientTag = (''vinculum.client.name'', clientName)\<rparr>)"

definition CM_SetConnected :: "client_metrics option \<Rightarrow> bool \<Rightarrow> measurement list" where
  "CM_SetConnected m up =
     (case m of
        None \<Rightarrow> []
      | Some c \<Rightarrow> [\<lparr>m_Instrument = cm_connected c, m_Reading = Gauge (if up then 1 else 0),
          m_Attrs = [(''messaging.system'', ''mqtt''), cm_clientTag c]\<rparr>])"

definition CM_IncrReconnects :: "client_metrics option \<Rightarrow> measurement list" where
  "CM_IncrReconnects m =
     (case m of
        None \<Rightarrow> []
      | Some c \<Rightarrow> [\<lparr>m_Instrument = cm_reconnects c, m_Reading = Add 1,
          m_Attrs = [(''messaging.system'', ''mqtt''), cm_clientTag c]\<rparr>])"

section \<open>What a measurement is of\<close>

text \<open>A metrics object made for a client tags every measurement with that client's name.\<close>

definition tagged :: "string \<Rightarrow> measurement \<Rightarrow> bool" where
  "tagged clientName m \<longleftrightarrow> (''vinculum.client.name'', clientName) \<in> set (m_Attrs m)"

lemmas metrics_defs =
  NewPublisherMetrics_def PM_RecordSent_def PM_RecordError_def PM_RecordPublishDuration_def
  NewSubscriberMetrics_def SM_RecordReceived_def SM_RecordError_def SM_RecordProcessDuration_def
  NewClientMetrics_def CM_SetConnected_def CM_IncrReconnects_def

lemma nil_metrics [simp]:
  "PM_RecordSent None t = []" "PM_RecordError None t = []" "PM_RecordPublishDuration None t d = []"
  "SM_RecordReceived None t = []" "SM_RecordError None t x = []"
  "SM_RecordProcessDuration None t d = []" "CM_SetConnected None b = []"
  "CM_IncrReconnects None = []"
  by (simp_all add: metrics_defs)

end
