(* ===== verification/Publisher.thy ===== *)
theory Publisher
  imports Metrics
begin

text \<open>
  The package publisher (src/publisher/publisher.go, src/publisher/builder.go): the bus
  subscriber that turns a vinculum event into one MQTT publish. The builder, the topic
  mapping with its first-match rule and its three fallbacks, and \<open>OnEvent\<close> with the calls and
  measurements it makes. The publish function is injected later and is nil until then.
\<close>

section \<open>Data\<close>

text \<open>The fallback is a Go int with three named values; any other value acts as verbatim.\<close>

type_synonym default_topic_transform = goint

definition DefaultTopicVerbatim :: default_topic_transform where
  "DefaultTopicVerbatim = 0"

definition DefaultTopicError :: default_topic_transform where
  "DefaultTopicError = 1"

definition DefaultTopicIgnore :: default_topic_transform where
  "DefaultTopicIgnore = 2"

type_synonym ('m, 'e) mqtt_topic_func =
  "string \<Rightarrow> 'm any \<Rightarrow> (string, string) gomap \<Rightarrow> 'e + string"

record ('m, 'e) topic_mapping =
  Pattern :: string
  MQTTTopicFunc :: "('m, 'e) mqtt_topic_func option"
  QoS :: byte
  Retain :: bool

type_synonym ('c, 'e) publish_func = "'c \<Rightarrow> publish \<Rightarrow> 'e option"

record ('c, 'm, 'e) publisher =
  p_publishFunc :: "('c, 'e) publish_func option"
  p_topicMappings :: "('m, 'e) topic_mapping list"
  p_defaultXform :: default_topic_transform
  p_defaultQoS :: byte
  p_defaultRetain :: bool
  p_wireFormat :: "('m, 'e) wire_format option"
  p_logger :: "opaque option"
  p_metrics :: "publisher_metrics option"
  p_tracerProvider :: "opaque option"

datatype 'e pub_error =
    NotYetConnected
  | ResolveTopic string 'e
  | NoMappingMatched string
  | SerializePayload 'e
  | PublishTo string 'e

datatype ('c, 'e) pub_effect =
    PubMeasure measurement
  | PubSpan "('c, 'e) span_event"
  | PubCall 'c publish

abbreviation pub_measures :: "measurement list \<Rightarrow> ('c, 'e) pub_effect list" where
  "pub_measures \<equiv> map PubMeasure"

section \<open>The builder\<close>

record ('m, 'e) publisher_builder =
  pb_clientName :: string
  pb_topicMappings :: "('m, 'e) topic_mapping list"
  pb_defaultXform :: default_topic_transform
  pb_defaultQoS :: byte
  pb_defaultRetain :: bool
  pb_wireFormat :: "('m, 'e) wire_format option"
  pb_logger :: "opaque option"
  pb_meterProvider :: "opaque option"
  pb_tracerProvider :: "opaque option"

definition NewPublisher :: "('m, 'e) publisher_builder" where
  "NewPublisher = \<lparr>pb_clientName = '''', pb_topicMappings = [],
     pb_defaultXform = DefaultTopicVerbatim, pb_defaultQoS = 1, pb_defaultRetain = False,
     pb_wireFormat = None, pb_logger = Some ''nop'', pb_meterProvider = None,
     pb_tracerProvider = None\<rparr>"

text \<open>The setters. Wire formats by name come from the wire library, the parameter \<open>byName\<close>.\<close>

datatype ('m, 'e) publisher_option =
    WithTopicMapping "('m, 'e) topic_mapping"
  | WithDefaultTransform default_topic_transform
  | WithDefaultQoS byte
  | WithDefaultRetain bool
  | WithWireFormat "('m, 'e) wire_format option"
  | WithWireFormatName string
  | WithLogger "opaque option"
  | WithClientName string
  | WithMeterProvider "opaque option"
  | WithTracerProvider "opaque option"

fun set_publisher_option ::
  "(string \<Rightarrow> ('m, 'e) wire_format option) \<Rightarrow> ('m, 'e) publisher_builder
    \<Rightarrow> ('m, 'e) publisher_option \<Rightarrow> ('m, 'e) publisher_builder" where
  "set_publisher_option byName b (WithTopicMapping tm) =
     b\<lparr>pb_topicMappings := pb_topicMappings b @ [tm]\<rparr>"
| "set_publisher_option byName b (WithDefaultTransform t) = b\<lparr>pb_defaultXform := t\<rparr>"
| "set_publisher_option byName b (WithDefaultQoS qos) = b\<lparr>pb_defaultQoS := qos\<rparr>"
| "set_publisher_option byName b (WithDefaultRetain retain) = b\<lparr>pb_defaultRetain := retain\<rparr>"
| "set_publisher_option byName b (WithWireFormat f) = b\<lparr>pb_wireFormat := f\<rparr>"
| "set_publisher_option byName b (WithWireFormatName name) = b\<lparr>pb_wireFormat := byName name\<rparr>"
| "set_publisher_option byName b (WithLogger l) =
     (if l \<noteq> None then b\<lparr>pb_logger := l\<rparr> else b)"
| "set_publisher_option byName b (WithClientName name) = b\<lparr>pb_clientName := name\<rparr>"
| "set_publisher_option byName b (WithMeterProvider p) = b\<lparr>pb_meterProvider := p\<rparr>"
| "set_publisher_option byName b (WithTracerProvider tp) = b\<lparr>pb_tracerProvider := tp\<rparr>"

text \<open>The wire library's default format is the parameter \<open>auto\<close>. \<open>Build\<close> cannot fail.\<close>

definition BuildPublisher ::
  "('m, 'e) wire_format \<Rightarrow> ('m, 'e) publisher_builder \<Rightarrow> ('c, 'm, 'e) publisher" where
  "BuildPublisher auto b =
     (let meter = (case pb_meterProvider b of
                     None \<Rightarrow> None
                   | Some _ \<Rightarrow> Some ''github.com/tsarna/vinculum-mqtt/publisher'');
          wf = (case pb_wireFormat b of None \<Rightarrow> auto | Some f \<Rightarrow> f)
      in \<lparr>p_publishFunc = None,
          p_topicMappings = pb_topicMappings b,
          p_defaultXform = pb_defaultXform b,
          p_defaultQoS = pb_defaultQoS b,
          p_defaultRetain = pb_defaultRetain b,
          p_wireFormat = Some wf,
          p_logger = pb_logger b,
          p_metrics = NewPublisherMetrics (pb_clientName b) meter,
          p_tracerProvider = pb_tracerProvider b\<rparr>)"

section \<open>Operations\<close>

definition SetPublishFunc ::
  "('c, 'm, 'e) publisher \<Rightarrow> ('c, 'e) publish_func option \<Rightarrow> ('c, 'm, 'e) publisher" where
  "SetPublishFunc p fn = p\<lparr>p_publishFunc := fn\<rparr>"

text \<open>
  The merge of the fields with the values a pattern extracts: a new map, two assignment
  loops, and the fields themselves where nothing was extracted.
\<close>

definition mergedFields ::
  "'c runtime \<Rightarrow> (string, string) gomap \<Rightarrow> (string, string) gomap
    \<Rightarrow> (string, string) gomap outcome" where
  "mergedFields rt flds extracted =
     (if gm_len extracted > 0
      then (case range_assign (Some fmempty) (range_fields rt flds) of
              Panic q \<Rightarrow> Panic q
            | Ret m \<Rightarrow> range_assign m (range_fields rt extracted))
      else Ret flds)"

text \<open>The body of the loop for the mapping that matches.\<close>

definition applyMapping ::
  "'c runtime \<Rightarrow> ('m, 'e) topic_mapping \<Rightarrow> string \<Rightarrow> 'm any \<Rightarrow> (string, string) gomap
    \<Rightarrow> ('e pub_error + string \<times> byte \<times> bool) outcome" where
  "applyMapping rt m topic msg flds =
     (case mergedFields rt flds (Extract rt (Pattern m) topic) of
        Panic q \<Rightarrow> Panic q
      | Ret merged \<Rightarrow>
          (case MQTTTopicFunc m of
             None \<Rightarrow> Ret (Inr (topic, QoS m, Retain m))
           | Some f \<Rightarrow>
               (case f topic msg merged of
                  Inl e \<Rightarrow> Ret (Inl (ResolveTopic topic e))
                | Inr t \<Rightarrow> Ret (Inr (if t = '''' then topic else t, QoS m, Retain m)))))"

fun resolve_loop ::
  "'c runtime \<Rightarrow> ('c, 'm, 'e) publisher \<Rightarrow> string \<Rightarrow> 'm any \<Rightarrow> (string, string) gomap
    \<Rightarrow> ('m, 'e) topic_mapping list \<Rightarrow> ('e pub_error + string \<times> byte \<times> bool) outcome" where
  "resolve_loop rt p topic msg flds [] =
     (if p_defaultXform p = DefaultTopicIgnore then Ret (Inr ('''', 0, False))
      else if p_defaultXform p = DefaultTopicError then Ret (Inl (NoMappingMatched topic))
      else Ret (Inr (topic, p_defaultQoS p, p_defaultRetain p)))"
| "resolve_loop rt p topic msg flds (m # ms) =
     (if \<not> Matches rt (Pattern m) topic then resolve_loop rt p topic msg flds ms
      else applyMapping rt m topic msg flds)"

definition resolveMapping ::
  "'c runtime \<Rightarrow> ('c, 'm, 'e) publisher \<Rightarrow> string \<Rightarrow> 'm any \<Rightarrow> (string, string) gomap
    \<Rightarrow> ('e pub_error + string \<times> byte \<times> bool) outcome" where
  "resolveMapping rt p topic msg flds = resolve_loop rt p topic msg flds (p_topicMappings p)"

definition fieldsToUserProperties ::
  "'c runtime \<Rightarrow> (string, string) gomap \<Rightarrow> user_properties" where
  "fieldsToUserProperties rt flds =
     (if gm_len flds = 0 then []
      else foldl (\<lambda>ps (k, v). ps @ [user k v]) [] (range_fields rt flds))"

text \<open>The message that goes out, with the trace context of the caller injected.\<close>

definition outgoing ::
  "'c runtime \<Rightarrow> 'c \<Rightarrow> string \<Rightarrow> byte \<Rightarrow> bool \<Rightarrow> payload \<Rightarrow> (string, string) gomap \<Rightarrow> publish" where
  "outgoing rt ctx mqttTopic qos retain body flds =
     (let msg = \<lparr>pub_Topic = mqttTopic, pub_QoS = qos, pub_Retain = retain, pub_Payload = body,
                 pub_Properties = None\<rparr>;
          c = prop_Inject rt ctx (New (fieldsToUserProperties rt flds));
          up = UserProperties c
      in if length up > 0 then msg\<lparr>pub_Properties := Some \<lparr>User = up\<rparr>\<rparr> else msg)"

text \<open>
  The broker call inside its span: the span starts before it and ends on return, after the
  error and the measurements have been recorded.
\<close>

definition send ::
  "'c runtime \<Rightarrow> ('c, 'm, 'e) publisher \<Rightarrow> ('c, 'e) publish_func \<Rightarrow> 'c \<Rightarrow> publish
    \<Rightarrow> (('c, 'e) pub_effect, 'e pub_error option) comp" where
  "send rt p fn ctx msg =
     (let mqttTopic = pub_Topic msg;
          name = ''send '' @ mqttTopic;
          opts = \<lparr>sp_NewRoot = False, sp_Kind = SpanKindProducer,
                  sp_Attributes = [MessagingSystem ''mqtt'', MessagingDestinationName mqttTopic,
                    MessagingOperationTypePublish, MessagingOperationName ''send''],
                  sp_Link = None\<rparr>;
          ctx' = span_ctx rt (p_tracerProvider p) ctx name;
          begun = [PubSpan (SpanStart (p_tracerProvider p) ''vinculum-mqtt/publisher'' name opts),
                   PubCall ctx' msg]
      in case fn ctx' msg of
           Some e \<Rightarrow>
             (begun @ [PubSpan (SpanRecordError e), PubSpan (SpanSetStatusError e)]
                @ pub_measures (PM_RecordError (p_metrics p) mqttTopic) @ [PubSpan SpanEnd],
              Ret (Some (PublishTo mqttTopic e)))
         | None \<Rightarrow>
             (begun @ pub_measures (PM_RecordSent (p_metrics p) mqttTopic)
                @ pub_measures (PM_RecordPublishDuration (p_metrics p) mqttTopic (since_start rt))
                @ [PubSpan SpanEnd],
              Ret None))"

definition OnEvent ::
  "'c runtime \<Rightarrow> ('c, 'm, 'e) publisher \<Rightarrow> 'c \<Rightarrow> string \<Rightarrow> 'm any \<Rightarrow> (string, string) gomap
    \<Rightarrow> (('c, 'e) pub_effect, 'e pub_error option) comp" where
  "OnEvent rt p ctx topic msg flds =
     (case p_publishFunc p of
        None \<Rightarrow> ret (Some NotYetConnected)
      | Some fn \<Rightarrow>
          (case resolveMapping rt p topic msg flds of
             Panic q \<Rightarrow> panic q
           | Ret (Inl e) \<Rightarrow> (pub_measures (PM_RecordError (p_metrics p) topic), Ret (Some e))
           | Ret (Inr (mqttTopic, qos, retain)) \<Rightarrow>
               if mqttTopic = '''' then ret None
               else
                 (case p_wireFormat p of
                    None \<Rightarrow> panic NilDereference
                  | Some wfm \<Rightarrow>
                      (case wf_Serialize wfm msg of
                         Inl e \<Rightarrow> (pub_measures (PM_RecordError (p_metrics p) mqttTopic),
                                   Ret (Some (SerializePayload e)))
                       | Inr body \<Rightarrow>
                           send rt p fn ctx
                             (outgoing rt ctx mqttTopic qos retain body flds)))))"

section \<open>The mapping in force\<close>

text \<open>The fallback, when no mapping matches.\<close>

definition fallback ::
  "('c, 'm, 'e) publisher \<Rightarrow> string \<Rightarrow> ('e pub_error + string \<times> byte \<times> bool) outcome" where
  "fallback p topic =
     (if p_defaultXform p = DefaultTopicIgnore then Ret (Inr ('''', 0, False))
      else if p_defaultXform p = DefaultTopicError then Ret (Inl (NoMappingMatched topic))
      else Ret (Inr (topic, p_defaultQoS p, p_defaultRetain p)))"

interpretation mapping: first_match
  "resolve_loop rt p topic msg flds"
  "\<lambda>m. Matches rt (Pattern m) topic"
  "\<lambda>m. applyMapping rt m topic msg flds"
  "fallback p topic"
  for rt p topic msg flds
  by unfold_locales (simp_all add: fallback_def)

lemma mergedFields_Ret: "\<exists>m. mergedFields rt flds ex = Ret m"
proof -
  obtain m where m: "range_assign (Some fmempty) (range_fields rt flds) = Ret (Some m)"
    using range_assign_Some by blast
  then show ?thesis
    using range_assign_Some [of m "range_fields rt ex"] by (auto simp: mergedFields_def)
qed

lemma mergedFields_get:
  assumes "ranges_ok rt" and "mergedFields rt flds ex = Ret m"
  shows "gm_get m = gm_get flds ++ gm_get ex"
proof (cases "gm_len ex = 0")
  case True
  with assms(2) show ?thesis by (simp add: mergedFields_def gm_len_0_iff)
next
  case False
  obtain m' where m': "gm_merge (Some fmempty) flds = Ret (Some m')" "fmlookup m' = gm_get flds"
    using gm_merge_Some_get [of fmempty flds] by auto
  then show ?thesis
    using assms(2) False gm_merge_get [of "Some m'" ex m]
    by (simp add: mergedFields_def ranges_ok_merge [OF assms(1)])
qed

lemma applyMapping_Ret: "\<exists>r. applyMapping rt m topic msg flds = Ret r"
  using mergedFields_Ret [of rt flds "Extract rt (Pattern m) topic"]
  by (auto simp: applyMapping_def split: option.splits sum.splits)

lemma resolveMapping_Ret: "\<exists>r. resolveMapping rt p topic msg flds = Ret r"
  unfolding resolveMapping_def
  by (rule mapping.run_cases [of "p_topicMappings p" rt topic p msg flds])
     (use applyMapping_Ret in \<open>force simp: fallback_def\<close>)+

lemma applyMapping_Inr:
  assumes "applyMapping rt m topic msg flds = Ret (Inr (t, q, r))"
  shows "q = QoS m" "r = Retain m" "t = '''' \<longleftrightarrow> topic = '''' \<and> t = topic"
  using assms by (auto simp: applyMapping_def split: outcome.splits option.splits sum.splits if_splits)

section \<open>User properties\<close>

lemma foldl_user:
  "foldl (\<lambda>ps (k, v). ps @ [user k v]) acc kvs = acc @ map (\<lambda>(k, v). user k v) kvs"
  by (induction kvs arbitrary: acc) auto

lemma fieldsToUserProperties_eq:
  assumes "ranges_ok rt"
  shows "fieldsToUserProperties rt flds = map (\<lambda>(k, v). user k v) (range_fields rt flds)"
proof -
  have "length (range_fields rt flds) = gm_len flds"
    using assms by (intro enumerates_length) (simp add: ranges_ok_def)
  then show ?thesis by (auto simp: fieldsToUserProperties_def foldl_user)
qed

lemma first_value_user: "first_value (map (\<lambda>(k, v). user k v) kvs) k = map_of kvs k"
  by (induction kvs) (auto simp: first_value_def)

lemma first_value_fields:
  assumes "ranges_ok rt"
  shows "first_value (fieldsToUserProperties rt flds) k = gm_get flds k"
  using assms fieldsToUserProperties_eq [OF assms, of flds]
  by (auto simp: first_value_user ranges_ok_def enumerates_def)

lemma distinct_fields:
  assumes "ranges_ok rt"
  shows "distinct (map Key (fieldsToUserProperties rt flds))"
proof -
  have "map Key (map (\<lambda>(k, v). user k v) kvs) = map fst kvs" for kvs
    by (induction kvs) auto
  then show ?thesis
    using assms by (simp add: fieldsToUserProperties_eq ranges_ok_def enumerates_def del: map_map)
qed

text \<open>
  Sorted, the properties of a map are one list, whatever order the iteration took.
\<close>

lemma sorted_user_properties:
  assumes "sorted (map fst kvs)" "distinct (map fst kvs)"
  shows "sorted (map (\<lambda>(k, v). user k v) kvs)"
proof -
  have "sorted_wrt (\<lambda>x y. fst x < fst y) kvs"
    using assms strict_sorted_iff [of "map fst kvs"] by (simp add: sorted_wrt_map)
  then have "sorted_wrt (\<lambda>x y. (case x of (k, v) \<Rightarrow> user k v) \<le> (case y of (k, v) \<Rightarrow> user k v)) kvs"
    by (rule sorted_wrt_mono_rel [rotated]) (auto simp: less_eq_user_property_ext_def)
  then show ?thesis by (simp add: sorted_wrt_map)
qed

lemma sort_fieldsToUserProperties:
  assumes "ranges_ok rt"
  shows "sort (fieldsToUserProperties rt flds) = map (\<lambda>(k, v). user k v) (sorted_range flds)"
proof (rule properties_for_sort)
  have "mset (sorted_range flds) = mset (range_fields rt flds)"
    using assms by (intro enumerates_mset [of flds]) (simp_all add: ranges_ok_def enumerates_sorted_range)
  then show "mset (map (\<lambda>(k, v). user k v) (sorted_range flds)) = mset (fieldsToUserProperties rt flds)"
    by (simp add: fieldsToUserProperties_eq [OF assms])
  show "sorted (map (\<lambda>(k, v). user k v) (sorted_range flds))"
    using sorted_sorted_range [of flds] enumerates_sorted_range [of flds]
    by (intro sorted_user_properties) (simp_all add: enumerates_def)
qed

text \<open>What an outgoing message carries: every field outside the trace headers, once.\<close>

definition message_properties :: "publish \<Rightarrow> user_properties" where
  "message_properties m = (case pub_Properties m of None \<Rightarrow> [] | Some pp \<Rightarrow> User pp)"

lemma outgoing_simps [simp]:
  "pub_Topic (outgoing rt ctx t q r b flds) = t" "pub_QoS (outgoing rt ctx t q r b flds) = q"
  "pub_Retain (outgoing rt ctx t q r b flds) = r" "pub_Payload (outgoing rt ctx t q r b flds) = b"
  by (simp_all add: outgoing_def Let_def)

lemma outgoing_user:
  "message_properties (outgoing rt ctx t q r b flds) =
     UserProperties (prop_Inject rt ctx (New (fieldsToUserProperties rt flds)))"
  by (simp add: message_properties_def outgoing_def Let_def)

lemma outgoing_first_value:
  assumes "ranges_ok rt" "injects_headers rt" "k \<notin> set traceHeaders"
  shows "first_value (message_properties (outgoing rt ctx t q r b flds)) k = gm_get flds k"
  unfolding outgoing_user
  using assms by (simp add: inject_first_value New_def first_value_fields)

lemma outgoing_distinct:
  assumes "ranges_ok rt" "injects_headers rt"
  shows "distinct (map Key (message_properties (outgoing rt ctx t q r b flds)))"
  unfolding outgoing_user
  using inject_distinct [OF assms(2), of "New (fieldsToUserProperties rt flds)" ctx]
    distinct_fields [OF assms(1), of flds]
  by (simp add: New_def Keys_def UserProperties_def)

section \<open>What an event leads to\<close>

definition pub_calls :: "('c, 'e) pub_effect list \<Rightarrow> ('c \<times> publish) list" where
  "pub_calls fs = concat (map (\<lambda>f. case f of PubCall ctx m \<Rightarrow> [(ctx, m)] | _ \<Rightarrow> []) fs)"

definition pub_measurements :: "('c, 'e) pub_effect list \<Rightarrow> measurement list" where
  "pub_measurements fs = concat (map (\<lambda>f. case f of PubMeasure m \<Rightarrow> [m] | _ \<Rightarrow> []) fs)"

definition pub_spans :: "('c, 'e) pub_effect list \<Rightarrow> ('c, 'e) span_event list" where
  "pub_spans fs = concat (map (\<lambda>f. case f of PubSpan s \<Rightarrow> [s] | _ \<Rightarrow> []) fs)"

lemma pub_projections [simp]:
  "pub_calls [] = []" "pub_measurements [] = []" "pub_spans [] = []"
  "pub_calls (PubCall c m # fs) = (c, m) # pub_calls fs"
  "pub_calls (PubSpan s # fs) = pub_calls fs" "pub_calls (PubMeasure x # fs) = pub_calls fs"
  "pub_measurements (PubMeasure x # fs) = x # pub_measurements fs"
  "pub_measurements (PubSpan s # fs) = pub_measurements fs"
  "pub_measurements (PubCall c m # fs) = pub_measurements fs"
  "pub_spans (PubSpan s # fs) = s # pub_spans fs"
  "pub_spans (PubCall c m # fs) = pub_spans fs" "pub_spans (PubMeasure x # fs) = pub_spans fs"
  by (simp_all add: pub_calls_def pub_measurements_def pub_spans_def)

lemma pub_projections_append [simp]:
  "pub_calls (fs @ gs) = pub_calls fs @ pub_calls gs"
  "pub_measurements (fs @ gs) = pub_measurements fs @ pub_measurements gs"
  "pub_spans (fs @ gs) = pub_spans fs @ pub_spans gs"
  by (simp_all add: pub_calls_def pub_measurements_def pub_spans_def)

lemma pub_projections_measures [simp]:
  "pub_calls (pub_measures ms) = []" "pub_measurements (pub_measures ms) = ms"
  "pub_spans (pub_measures ms) = []"
  by (induction ms) simp_all

text \<open>\<open>send\<close> makes one call, in one span, and reports the error the broker returned.\<close>

lemma send_result:
  "outcome (send rt p fn ctx m) =
     Ret (map_option (PublishTo (pub_Topic m))
       (fn (span_ctx rt (p_tracerProvider p) ctx (''send '' @ pub_Topic m)) m))"
  by (simp add: send_def Let_def split: option.splits)

lemma send_calls:
  "pub_calls (effects (send rt p fn ctx m)) =
     [(span_ctx rt (p_tracerProvider p) ctx (''send '' @ pub_Topic m), m)]"
  by (simp add: send_def Let_def split: option.splits)

lemma send_measurements:
  "pub_measurements (effects (send rt p fn ctx m)) =
     (case outcome (send rt p fn ctx m) of
        Ret None \<Rightarrow> PM_RecordSent (p_metrics p) (pub_Topic m)
                   @ PM_RecordPublishDuration (p_metrics p) (pub_Topic m) (since_start rt)
      | _ \<Rightarrow> PM_RecordError (p_metrics p) (pub_Topic m))"
  by (simp add: send_def Let_def split: option.splits)

lemma send_spans:
  "\<exists>opts mid. pub_spans (effects (send rt p fn ctx m)) =
     SpanStart (p_tracerProvider p) ''vinculum-mqtt/publisher'' (''send '' @ pub_Topic m) opts
       # mid @ [SpanEnd] \<and> SpanEnd \<notin> set mid \<and> sp_Kind opts = SpanKindProducer"
  by (simp add: send_def Let_def split: option.splits)

text \<open>The five ways an event can end, in the order of the code's returns.\<close>

lemma OnEvent_cases:
  assumes wf: "p_wireFormat p = Some wfm"
  obtains
    (NotConnected) "p_publishFunc p = None"
      "OnEvent rt p ctx topic msg flds = ([], Ret (Some NotYetConnected))"
  | (Unresolved) fn e where "p_publishFunc p = Some fn"
      "resolveMapping rt p topic msg flds = Ret (Inl e)"
      "OnEvent rt p ctx topic msg flds =
         (pub_measures (PM_RecordError (p_metrics p) topic), Ret (Some e))"
  | (Dropped) fn q r where "p_publishFunc p = Some fn"
      "resolveMapping rt p topic msg flds = Ret (Inr ('''', q, r))"
      "OnEvent rt p ctx topic msg flds = ([], Ret None)"
  | (Unserialized) fn t q r e where "p_publishFunc p = Some fn" "t \<noteq> ''''"
      "resolveMapping rt p topic msg flds = Ret (Inr (t, q, r))" "wf_Serialize wfm msg = Inl e"
      "OnEvent rt p ctx topic msg flds =
         (pub_measures (PM_RecordError (p_metrics p) t), Ret (Some (SerializePayload e)))"
  | (Sent) fn t q r b where "p_publishFunc p = Some fn" "t \<noteq> ''''"
      "resolveMapping rt p topic msg flds = Ret (Inr (t, q, r))" "wf_Serialize wfm msg = Inr b"
      "OnEvent rt p ctx topic msg flds = send rt p fn ctx (outgoing rt ctx t q r b flds)"
proof (cases "p_publishFunc p")
  case None
  then show thesis using NotConnected by (simp add: OnEvent_def ret_def)
next
  case (Some fn)
  obtain res where res: "resolveMapping rt p topic msg flds = Ret res"
    using resolveMapping_Ret by blast
  show thesis
  proof (cases res)
    case (Inl e)
    with Some res show thesis using Unresolved by (simp add: OnEvent_def)
  next
    case (Inr tqr)
    obtain t q r where tqr: "tqr = (t, q, r)" by (cases tqr)
    show thesis
    proof (cases "t = ''''")
      case True
      with Some res Inr tqr show thesis using Dropped by (simp add: OnEvent_def ret_def)
    next
      case False
      with Some res Inr tqr wf show thesis
        using Unserialized Sent by (cases "wf_Serialize wfm msg") (auto simp: OnEvent_def)
    qed
  qed
qed

lemma resolveMapping_Inl:
  assumes "resolveMapping rt p topic msg flds = Ret (Inl e)"
  shows "(\<exists>x. e = ResolveTopic topic x) \<or> e = NoMappingMatched topic"
  using assms unfolding resolveMapping_def
  by (cases rule: mapping.run_cases [of "p_topicMappings p" rt topic p msg flds])
     (auto simp: fallback_def applyMapping_def
       split: if_splits outcome.splits option.splits sum.splits)

text \<open>Only a publisher without a publish function answers that it is not connected yet.\<close>

lemma connected_not_rejected:
  assumes "p_publishFunc p = Some fn"
  shows "outcome (OnEvent rt p ctx topic msg flds) \<noteq> Ret (Some NotYetConnected)"
proof -
  obtain r where r: "resolveMapping rt p topic msg flds = Ret r"
    using resolveMapping_Ret by blast
  show ?thesis
  proof (cases r)
    case (Inl e)
    then have "e \<noteq> NotYetConnected"
      using resolveMapping_Inl [of rt p topic msg flds e] r by auto
    with Inl r assms show ?thesis by (simp add: OnEvent_def)
  next
    case (Inr tqb)
    then show ?thesis
      using r assms
      by (cases tqb) (simp add: OnEvent_def send_result split: option.split sum.split)
  qed
qed

lemma built_wireFormat:
  "p_wireFormat (SetPublishFunc (BuildPublisher auto b) fn) =
     Some (case pb_wireFormat b of None \<Rightarrow> auto | Some f \<Rightarrow> f)"
  by (simp add: SetPublishFunc_def BuildPublisher_def Let_def)

section \<open>Properties\<close>

text \<open>C7: the first mapping that matches decides an event. Whatever mappings follow it, and
  whatever the fallback is, the publisher makes exactly one broker call: the message has the
  topic the mapping's function returns, or the event's own topic where that is empty or the
  mapping has no function, with the mapping's QoS and retain flag and the serialized payload; and the function is handed
  the event's fields overridden by the values the pattern extracts. The outcome is what the
  broker call returned.\<close>

theorem OnEvent_first_match:
  assumes "p_publishFunc p = Some fn" and "p_wireFormat p = Some wfm"
    and "p_topicMappings p = pre @ m # post"
    and "\<forall>q \<in> set pre. \<not> Matches rt (Pattern q) topic" and "Matches rt (Pattern m) topic"
    and "ranges_ok rt"
    and "case MQTTTopicFunc m of
           None \<Rightarrow> t = topic
         | Some f \<Rightarrow> \<forall>g. gm_get g = gm_get flds ++ gm_get (Extract rt (Pattern m) topic)
             \<longrightarrow> f topic msg g = Inr t"
    and "wf_Serialize wfm msg = Inr b" and "topic \<noteq> ''''"
  shows "\<exists>dest c msg'. dest = (if t = '''' then topic else t)
    \<and> pub_calls (effects (OnEvent rt p ctx topic msg flds)) = [(c, msg')]
    \<and> pub_Topic msg' = dest \<and> pub_QoS msg' = QoS m \<and> pub_Retain msg' = Retain m
    \<and> pub_Payload msg' = b
    \<and> outcome (OnEvent rt p ctx topic msg flds) = Ret (map_option (PublishTo dest) (fn c msg'))"
proof -
  let ?dest = "if t = '''' then topic else t"
  obtain g where g: "mergedFields rt flds (Extract rt (Pattern m) topic) = Ret g"
    using mergedFields_Ret by blast
  then have "applyMapping rt m topic msg flds = Ret (Inr (?dest, QoS m, Retain m))"
    using assms(7) mergedFields_get [OF assms(6) g]
    by (auto simp: applyMapping_def split: option.splits)
  then have "resolveMapping rt p topic msg flds = Ret (Inr (?dest, QoS m, Retain m))"
    unfolding resolveMapping_def assms(3) by (simp add: mapping.run_first [OF assms(4,5)])
  then have "OnEvent rt p ctx topic msg flds
      = send rt p fn ctx (outgoing rt ctx ?dest (QoS m) (Retain m) b flds)"
    using assms(1,2,8,9) by (auto simp: OnEvent_def)
  then show ?thesis by (auto simp: send_calls send_result)
qed

text \<open>Apart from events with an empty topic, an event is silently dropped (no error, no
  call, no measurement) exactly when the publisher is connected, no mapping matches and the
  fallback is to ignore.\<close>

theorem OnEvent_drops_iff:
  assumes "p_wireFormat p = Some wfm" and "topic \<noteq> ''''"
  shows "OnEvent rt p ctx topic msg flds = ([], Ret None) \<longleftrightarrow>
    p_publishFunc p \<noteq> None \<and> p_defaultXform p = DefaultTopicIgnore
    \<and> (\<forall>m \<in> set (p_topicMappings p). \<not> Matches rt (Pattern m) topic)"
proof
  assume drop: "OnEvent rt p ctx topic msg flds = ([], Ret None)"
  obtain fn q r where fn: "p_publishFunc p = Some fn"
    and res: "resolve_loop rt p topic msg flds (p_topicMappings p) = Ret (Inr ('''', q, r))"
    using assms(1)
  proof (cases rule: OnEvent_cases [of p wfm rt ctx topic msg flds])
    case (Sent fn t q r b)
    have "pub_calls (effects (OnEvent rt p ctx topic msg flds)) = []"
      using drop by simp
    then show thesis using Sent(5) by (simp add: send_calls)
  qed (use drop that in \<open>auto simp: resolveMapping_def\<close>)
  show "p_publishFunc p \<noteq> None \<and> p_defaultXform p = DefaultTopicIgnore
    \<and> (\<forall>m \<in> set (p_topicMappings p). \<not> Matches rt (Pattern m) topic)"
    by (rule mapping.run_cases [of "p_topicMappings p" rt topic p msg flds])
       (use fn res assms(2) applyMapping_Inr in \<open>fastforce simp: fallback_def split: if_splits\<close>)+
next
  assume *: "p_publishFunc p \<noteq> None \<and> p_defaultXform p = DefaultTopicIgnore
    \<and> (\<forall>m \<in> set (p_topicMappings p). \<not> Matches rt (Pattern m) topic)"
  then have "resolveMapping rt p topic msg flds = Ret (Inr ('''', 0, False))"
    unfolding resolveMapping_def by (simp add: mapping.run_miss fallback_def)
  with * show "OnEvent rt p ctx topic msg flds = ([], Ret None)"
    by (auto simp: OnEvent_def ret_def)
qed

text \<open>
  The books of one event: what must have been measured, traced and called, given its result.
  A broker call has one span, which is open while the call and the measurements are made and
  which carries the error of the call where there is one.
\<close>

definition spanned ::
  "('c, 'm, 'e) publisher \<Rightarrow> string \<Rightarrow> 'e option \<Rightarrow> ('c, 'e) pub_effect list \<Rightarrow> bool" where
  "spanned p topic err effs \<longleftrightarrow>
     one_span (p_tracerProvider p) ''vinculum-mqtt/publisher'' (''send '' @ topic) err (pub_spans effs)
     \<and> (case hd effs of PubSpan _ \<Rightarrow> True | _ \<Rightarrow> False) \<and> last effs = PubSpan SpanEnd"

definition accounted ::
  "'c runtime \<Rightarrow> ('c, 'm, 'e) publisher \<Rightarrow> ('c, 'e) pub_effect list \<Rightarrow> 'e pub_error option \<Rightarrow> bool"
  where
  "accounted rt p effs res \<longleftrightarrow>
     length (pub_calls effs) \<le> 1 \<and> (pub_calls effs = [] \<longleftrightarrow> pub_spans effs = []) \<and>
     (case res of
        None \<Rightarrow> effs = [] \<or> (\<exists>c m. pub_calls effs = [(c, m)]
          \<and> pub_measurements effs = PM_RecordSent (p_metrics p) (pub_Topic m)
              @ PM_RecordPublishDuration (p_metrics p) (pub_Topic m) (since_start rt)
          \<and> spanned p (pub_Topic m) None effs)
      | Some NotYetConnected \<Rightarrow> effs = []
      | Some (PublishTo t e) \<Rightarrow> (\<exists>c m. pub_calls effs = [(c, m)] \<and> pub_Topic m = t
          \<and> pub_measurements effs = PM_RecordError (p_metrics p) t
          \<and> spanned p t (Some e) effs)
      | Some (ResolveTopic t e) \<Rightarrow> effs = pub_measures (PM_RecordError (p_metrics p) t)
      | Some (NoMappingMatched t) \<Rightarrow> effs = pub_measures (PM_RecordError (p_metrics p) t)
      | Some (SerializePayload e) \<Rightarrow>
          (\<exists>t. t \<noteq> '''' \<and> effs = pub_measures (PM_RecordError (p_metrics p) t)))"

lemma send_accounted:
  "\<exists>res. send rt p fn ctx m = (effects (send rt p fn ctx m), Ret res)
    \<and> accounted rt p (effects (send rt p fn ctx m)) res"
  by (cases "fn (span_ctx rt (p_tracerProvider p) ctx (''send '' @ pub_Topic m)) m")
     (simp_all add: send_def Let_def accounted_def spanned_def one_span_def)

text \<open>C15: the measurements agree with the outcome, for every publisher the builder makes. A nil
  error counts one sent message and its duration under the topic of the broker call, or
  has no effect at all where the event was dropped; an event before the connection has no
  effect either; every other error counts exactly one error and nothing else, under the topic
  that the error names: that of the failed call, or the event's own where no topic could be
  resolved for it. There is at most one broker call. It has exactly one span, whose
  start is the first effect of the event and whose single end is the last one, and the span
  is marked with the error of the call if it failed and unmarked if it did not.\<close>

theorem OnEvent_accounting:
  "\<exists>effs res.
     OnEvent rt (SetPublishFunc (BuildPublisher auto b) fn) ctx topic msg flds = (effs, Ret res)
     \<and> accounted rt (SetPublishFunc (BuildPublisher auto b) fn) effs res"
  (is "\<exists>effs res. OnEvent rt ?p ctx topic msg flds = _ \<and> _")
proof -
  obtain wfm where "p_wireFormat ?p = Some wfm"
    by (simp add: built_wireFormat)
  then show ?thesis
  proof (cases rule: OnEvent_cases [of ?p wfm rt ctx topic msg flds])
    case (Unresolved fn' e)
    then show ?thesis using resolveMapping_Inl [OF Unresolved(2)] by (auto simp: accounted_def)
  next
    case (Sent fn' t q r body)
    then show ?thesis using send_accounted by metis
  qed (auto simp: accounted_def)
qed

text \<open>No publisher that the builder makes panics on an event: not before the publish function
  is injected, not without a wire format, logger or metrics, and not on nil fields.\<close>

theorem built_publisher_never_panics:
  "\<exists>res. outcome (OnEvent rt (SetPublishFunc (BuildPublisher auto
     (foldl (set_publisher_option byName) NewPublisher opts)) fn) ctx topic msg flds) = Ret res"
  (is "\<exists>res. outcome (OnEvent rt ?p ctx topic msg flds) = Ret res")
proof -
  obtain wfm where "p_wireFormat ?p = Some wfm"
    by (simp add: built_wireFormat)
  then show ?thesis
    by (cases rule: OnEvent_cases [of ?p wfm rt ctx topic msg flds]) (auto simp: send_result)
qed

text \<open>The setters are independent: mappings accumulate in order, everything else is last-wins.\<close>

lemma pb_topicMappings_foldl:
  "pb_topicMappings (foldl (set_publisher_option byName) b opts) =
     pb_topicMappings b @ concat (map (\<lambda>opt. case opt of WithTopicMapping tm \<Rightarrow> [tm] | _ \<Rightarrow> []) opts)"
proof (induction opts arbitrary: b)
  case (Cons opt opts)
  then show ?case by (cases opt) simp_all
qed simp

lemma pb_defaults_foldl:
  "pb_defaultQoS (foldl (set_publisher_option byName) b opts) =
     last (pb_defaultQoS b # concat (map (\<lambda>opt. case opt of WithDefaultQoS q \<Rightarrow> [q] | _ \<Rightarrow> []) opts))"
  "pb_defaultRetain (foldl (set_publisher_option byName) b opts) =
     last (pb_defaultRetain b
       # concat (map (\<lambda>opt. case opt of WithDefaultRetain r \<Rightarrow> [r] | _ \<Rightarrow> []) opts))"
  "pb_defaultXform (foldl (set_publisher_option byName) b opts) =
     last (pb_defaultXform b
       # concat (map (\<lambda>opt. case opt of WithDefaultTransform x \<Rightarrow> [x] | _ \<Rightarrow> []) opts))"
proof (induction opts arbitrary: b)
  case (Cons opt opts)
  { case 1 show ?case by (cases opt) (simp_all add: Cons.IH(1)) }
  { case 2 show ?case by (cases opt) (simp_all add: Cons.IH(2)) }
  { case 3 show ?case by (cases opt) (simp_all add: Cons.IH(3)) }
qed simp_all

lemma pb_wireFormat_foldl:
  "pb_wireFormat (foldl (set_publisher_option byName) b opts) =
     last (pb_wireFormat b # concat (map (\<lambda>opt. case opt of
         WithWireFormat f \<Rightarrow> [f] | WithWireFormatName n \<Rightarrow> [byName n] | _ \<Rightarrow> []) opts))"
proof (induction opts arbitrary: b)
  case (Cons opt opts)
  then show ?case by (cases opt) simp_all
qed simp

lemma pb_logger_foldl:
  "pb_logger b \<noteq> None \<Longrightarrow> pb_logger (foldl (set_publisher_option byName) b opts) \<noteq> None"
proof (induction opts arbitrary: b)
  case (Cons opt opts)
  then show ?case by (cases opt) simp_all
qed simp

text \<open>What a chain of builder calls builds. The mappings are those given, in the order given;
  the fallback, its QoS and its retain flag are the last ones set, by default verbatim, 1 and
  false; an unset or nil wire format becomes the wire library's automatic one; a nil logger
  never replaces the default; and the publisher starts without a publish function.\<close>

theorem publisher_builder_result:
  "\<exists>p b. p = BuildPublisher auto b \<and> b = foldl (set_publisher_option byName) NewPublisher opts
    \<and> p_topicMappings p = concat (map (\<lambda>opt. case opt of WithTopicMapping tm \<Rightarrow> [tm] | _ \<Rightarrow> []) opts)
    \<and> p_defaultXform p = last (DefaultTopicVerbatim
        # concat (map (\<lambda>opt. case opt of WithDefaultTransform x \<Rightarrow> [x] | _ \<Rightarrow> []) opts))
    \<and> p_defaultQoS p = last (1 # concat (map (\<lambda>opt. case opt of WithDefaultQoS q \<Rightarrow> [q] | _ \<Rightarrow> []) opts))
    \<and> p_defaultRetain p = last (False
        # concat (map (\<lambda>opt. case opt of WithDefaultRetain r \<Rightarrow> [r] | _ \<Rightarrow> []) opts))
    \<and> p_wireFormat p = Some (case last (None # concat (map (\<lambda>opt. case opt of
          WithWireFormat f \<Rightarrow> [f] | WithWireFormatName n \<Rightarrow> [byName n] | _ \<Rightarrow> []) opts)) of
        None \<Rightarrow> auto | Some f \<Rightarrow> f)
    \<and> p_logger p \<noteq> None \<and> p_publishFunc p = None"
  using pb_logger_foldl [of NewPublisher byName opts]
  by (simp add: BuildPublisher_def Let_def pb_topicMappings_foldl pb_defaults_foldl
      pb_wireFormat_foldl NewPublisher_def)

section \<open>Witnesses\<close>

text \<open>A publisher that renames by the extracted id, and a broker that refuses retained messages.\<close>

definition example_mapping :: "(byte, string) topic_mapping" where
  "example_mapping = \<lparr>Pattern = ''+id'',
     MQTTTopicFunc = Some (\<lambda>topic msg flds. Inr (gm_index '''' flds ''id'' @ ''/out'')),
     QoS = 2, Retain = True\<rparr>"

definition example_publisher :: "(string, byte, string) publisher" where
  "example_publisher = \<lparr>
     p_publishFunc = Some (\<lambda>ctx m. if pub_Retain m then Some ''refused'' else None),
     p_topicMappings = [example_mapping\<lparr>Pattern := ''other''\<rparr>, example_mapping],
     p_defaultXform = DefaultTopicIgnore, p_defaultQoS = 1, p_defaultRetain = False,
     p_wireFormat = Some example_wire, p_logger = None, p_metrics = None,
     p_tracerProvider = None\<rparr>"

text \<open>The same publisher with a mapping that has no topic function.\<close>

definition example_verbatim_publisher :: "(string, byte, string) publisher" where
  "example_verbatim_publisher =
     example_publisher\<lparr>p_topicMappings := [example_mapping\<lparr>MQTTTopicFunc := None\<rparr>]\<rparr>"

lemma OnEvent_first_match_witness:
  "(\<exists>dest c msg'. dest = ''dev/out''
    \<and> pub_calls (effects (OnEvent example_runtime example_publisher ''ctx'' ''dev'' (Some 5) None))
        = [(c, msg')]
    \<and> pub_Topic msg' = dest \<and> pub_QoS msg' = 2 \<and> pub_Retain msg' = True
    \<and> pub_Payload msg' = Some [5]
    \<and> outcome (OnEvent example_runtime example_publisher ''ctx'' ''dev'' (Some 5) None)
        = Ret (Some (PublishTo dest ''refused'')))
   \<and> (\<exists>c msg'. pub_calls (effects (OnEvent example_runtime example_verbatim_publisher ''ctx'' ''dev''
          (Some 5) None)) = [(c, msg')]
      \<and> pub_Topic msg' = ''dev'' \<and> pub_QoS msg' = 2 \<and> pub_Retain msg' = True)"
proof -
  have nil: "\<exists>dest c msg'. dest = (if ''dev'' = '''' then ''dev'' else ''dev'')
    \<and> pub_calls (effects (OnEvent example_runtime example_verbatim_publisher ''ctx'' ''dev''
          (Some 5) None)) = [(c, msg')]
    \<and> pub_Topic msg' = dest \<and> pub_QoS msg' = QoS example_mapping
    \<and> pub_Retain msg' = Retain example_mapping \<and> pub_Payload msg' = Some [5]
    \<and> outcome (OnEvent example_runtime example_verbatim_publisher ''ctx'' ''dev'' (Some 5) None)
        = Ret (map_option (PublishTo dest) ((\<lambda>ctx m. if pub_Retain m then Some ''refused'' else None) c msg'))"
    using OnEvent_first_match [where wfm = example_wire and post = "[]" and pre = "[]"
          and m = "example_mapping\<lparr>MQTTTopicFunc := None\<rparr>" and p = example_verbatim_publisher
          and topic = "''dev''" and t = "''dev''" and rt = example_runtime and ctx = "''ctx''"
          and msg = "Some 5" and flds = None and b = "Some [5]"
          and fn = "\<lambda>ctx m. if pub_Retain m then Some ''refused'' else None",
          OF _ _ _ _ _ example_ranges_ok]
    by (simp add: example_verbatim_publisher_def example_publisher_def example_mapping_def
          example_wire_def)
  let ?f = "\<lambda>topic msg flds. Inr (gm_index '''' flds ''id'' @ ''/out'')"
  have f: "\<forall>g. gm_get g = gm_get (None :: (string, string) gomap)
        ++ gm_get (Extract example_runtime (Pattern example_mapping) ''dev'')
      \<longrightarrow> ?f ''dev'' (Some 5 :: byte any) g = (Inr ''dev/out'' :: string + string)"
    by (auto simp: example_mapping_def gm_index_def)
  have "\<exists>dest c msg'. dest = (if ''dev/out'' = '''' then ''dev'' else ''dev/out'')
    \<and> pub_calls (effects (OnEvent example_runtime example_publisher ''ctx'' ''dev'' (Some 5) None))
        = [(c, msg')]
    \<and> pub_Topic msg' = dest \<and> pub_QoS msg' = QoS example_mapping
    \<and> pub_Retain msg' = Retain example_mapping \<and> pub_Payload msg' = Some [5]
    \<and> outcome (OnEvent example_runtime example_publisher ''ctx'' ''dev'' (Some 5) None)
        = Ret (map_option (PublishTo dest) ((\<lambda>ctx m. if pub_Retain m then Some ''refused'' else None) c msg'))"
    by (rule OnEvent_first_match [where wfm = example_wire and m = example_mapping and post = "[]"
          and pre = "[example_mapping\<lparr>Pattern := ''other''\<rparr>]", OF _ _ _ _ _ example_ranges_ok])
       (use f in \<open>simp_all add: example_publisher_def example_mapping_def example_wire_def\<close>)
  then show ?thesis using nil by (auto simp: example_mapping_def)
qed

lemma OnEvent_drops_iff_witness:
  "OnEvent example_runtime (example_publisher\<lparr>p_topicMappings := []\<rparr>) ''ctx'' ''dev'' (Some 5) None
     = ([], Ret None)"
  using OnEvent_drops_iff [of "example_publisher\<lparr>p_topicMappings := []\<rparr>" example_wire "''dev''"
      example_runtime "''ctx''" "Some 5" None]
  by (simp add: example_publisher_def)

end
