(* ===== verification/Topics.thy ===== *)
theory Topics
  imports Prelude
begin

text \<open>
  Topic patterns as the packages handle them: split at slashes and joined again as Go's
  \<open>strings.Split\<close> and \<open>strings.Join\<close> do, and the conversion of a pattern with named wildcards
  into a broker filter (src/subscriber/subscriber.go, stripFieldNames).
\<close>

section \<open>Splitting and joining\<close>

text \<open>\<open>strings.Split(s, "/")\<close>: the empty string has one empty segment.\<close>

fun split_slash :: "string \<Rightarrow> string list" where
  "split_slash [] = [[]]"
| "split_slash (c # cs) =
     (if c = CHR ''/'' then [] # split_slash cs
      else (c # hd (split_slash cs)) # tl (split_slash cs))"

fun join_slash :: "string list \<Rightarrow> string" where
  "join_slash [] = []"
| "join_slash [s] = s"
| "join_slash (s # t # ss) = s @ ''/'' @ join_slash (t # ss)"

lemma split_slash_nonempty [simp]: "split_slash s \<noteq> []"
  by (cases s) auto

lemma join_split [simp]: "join_slash (split_slash s) = s"
proof (induction s)
  case (Cons c cs)
  obtain t ts where "split_slash cs = t # ts"
    by (cases "split_slash cs") simp_all
  with Cons show ?case by (cases ts) simp_all
qed simp

lemma split_no_slash: "CHR ''/'' \<notin> set s \<Longrightarrow> split_slash s = [s]"
  by (induction s) auto

lemma split_append_slash:
  "CHR ''/'' \<notin> set s \<Longrightarrow> split_slash (s @ CHR ''/'' # rest) = s # split_slash rest"
  by (induction s) auto

lemma split_join:
  "ss \<noteq> [] \<Longrightarrow> \<forall>s \<in> set ss. CHR ''/'' \<notin> set s \<Longrightarrow> split_slash (join_slash ss) = ss"
  by (induction ss rule: join_slash.induct) (auto simp: split_no_slash split_append_slash)

lemma split_segments: "s \<in> set (split_slash p) \<Longrightarrow> CHR ''/'' \<notin> set s"
proof (induction p arbitrary: s)
  case (Cons c cs)
  obtain t ts where "split_slash cs = t # ts"
    by (cases "split_slash cs") simp_all
  with Cons show ?case by (auto split: if_splits)
qed simp

section \<open>Field names\<close>

definition strip_segment :: "string \<Rightarrow> string" where
  "strip_segment seg = (if length seg > 1 \<and> seg ! 0 = CHR ''+'' then ''+'' else seg)"

definition stripFieldNames :: "string \<Rightarrow> string" where
  "stripFieldNames pattern = join_slash (map strip_segment (split_slash pattern))"

lemma strip_segment_no_slash: "CHR ''/'' \<notin> set s \<Longrightarrow> CHR ''/'' \<notin> set (strip_segment s)"
  by (auto simp: strip_segment_def)

lemma strip_segment_idem [simp]: "strip_segment (strip_segment s) = strip_segment s"
  by (simp add: strip_segment_def)

lemma split_stripFieldNames:
  "split_slash (stripFieldNames p) = map strip_segment (split_slash p)"
  unfolding stripFieldNames_def
  by (rule split_join) (auto dest: split_segments strip_segment_no_slash)

lemma stripFieldNames_idem [simp]: "stripFieldNames (stripFieldNames p) = stripFieldNames p"
  by (simp add: stripFieldNames_def [of "stripFieldNames p"] split_stripFieldNames comp_def)
     (simp add: stripFieldNames_def)

lemma strip_segment_fixed: "strip_segment s = s \<longleftrightarrow> \<not> (length s > 1 \<and> s ! 0 = CHR ''+'')"
  by (auto simp: strip_segment_def)

text \<open>Stripping the field names keeps the levels of a pattern and changes only the named
  wildcards: the result has the same number of levels, each level of it is the plain \<open>+\<close>
  where the pattern had a named one and is unchanged elsewhere, so a second strip does
  nothing, and a pattern without named wildcards is its own broker topic.\<close>

theorem stripFieldNames_levels:
  "split_slash (stripFieldNames p) =
     map (\<lambda>s. if length s > 1 \<and> s ! 0 = CHR ''+'' then ''+'' else s) (split_slash p)
   \<and> stripFieldNames (stripFieldNames p) = stripFieldNames p
   \<and> (stripFieldNames p = p \<longleftrightarrow>
        filter (\<lambda>s. length s > 1 \<and> s ! 0 = CHR ''+'') (split_slash p) = [])"
proof -
  have "stripFieldNames p = p \<longleftrightarrow> map strip_segment (split_slash p) = split_slash p"
    by (metis join_split split_stripFieldNames)
  also have "\<dots> \<longleftrightarrow> (\<forall>s \<in> set (split_slash p). strip_segment s = s)"
    by (simp add: map_idI map_eq_conv [of _ _ id, simplified])
  also have "\<dots> \<longleftrightarrow> filter (\<lambda>s. length s > 1 \<and> s ! 0 = CHR ''+'') (split_slash p) = []"
    unfolding strip_segment_fixed by (simp add: filter_empty_conv)
  finally show ?thesis
    by (simp add: split_stripFieldNames strip_segment_def [abs_def])
qed

end
