(* ===== verification/Subscriber.thy ===== *)
theory Subscriber
  imports Metrics Topics
begin

text \<open>
  The package subscriber (src/subscriber/subscriber.go, src/subscriber/builder.go): the source
  that turns an inbound MQTT message into one vinculum event. The builder with its
  validation, the choice of the subscription, and \<open>HandleMessage\<close> in the order of the code:
  retained filter, subscription, payload, context, fields, topic, delivery.
\<close>

section \<open>Data\<close>

type_synonym ('m, 'e) vinculum_topic_func =
  "string \<Rightarrow> (string, string) gomap \<Rightarrow> 'm any \<Rightarrow> 'e + string"

record ('m, 'e) topic_subscription =
  MQTTPattern :: string
  BrokerTopic :: string
  SubQoS :: byte
  VinculumTopicFunc :: "('m, 'e) vinculum_topic_func option"

text \<open>The \<open>OnEvent\<close> of the bus subscriber that events are delivered to.\<close>

type_synonym ('c, 'm, 'e) event_func =
  "'c \<Rightarrow> string \<Rightarrow> 'm any \<Rightarrow> (string, string) gomap \<Rightarrow> 'e option"

record ('c, 'm, 'e) subscriber =
  s_subscriptions :: "('m, 'e) topic_subscription list"
  s_subscriber :: "('c, 'm, 'e) event_func option"
  s_handleRetained :: bool
  s_sharedGroup :: string
  s_wireFormat :: "('m, 'e) wire_format option"
  s_onDecodeError :: "opaque option"
  s_logger :: "opaque option"
  s_metrics :: "subscriber_metrics option"
  s_tracerProvider :: "opaque option"

datatype 'e sub_error =
    NoSubscriptionMatched string
  | DeserializePayload string 'e
  | ResolveVinculumTopic string 'e
  | Downstream 'e

datatype ('c, 'm, 'e) sub_effect =
    SubMeasure measurement
  | SubSpan "('c, 'e) span_event"
  | SubLogDecodeError string string 'e
  | SubDecodeHook opaque 'c "'e decode_error"
  | SubEvent 'c string "'m any" "(string, string) gomap"

abbreviation sub_measures :: "measurement list \<Rightarrow> ('c, 'm, 'e) sub_effect list" where
  "sub_measures \<equiv> map SubMeasure"

section \<open>The builder\<close>

record ('c, 'm, 'e) subscriber_builder =
  sb_clientName :: string
  sb_subscriptions :: "('m, 'e) topic_subscription list"
  sb_subscriber :: "('c, 'm, 'e) event_func option"
  sb_handleRetained :: bool
  sb_sharedGroup :: string
  sb_wireFormat :: "('m, 'e) wire_format option"
  sb_onDecodeError :: "opaque option"
  sb_logger :: "opaque option"
  sb_meterProvider :: "opaque option"
  sb_tracerProvider :: "opaque option"

definition NewSubscriber :: "('c, 'm, 'e) subscriber_builder" where
  "NewSubscriber = \<lparr>sb_clientName = '''', sb_subscriptions = [], sb_subscriber = None,
     sb_handleRetained = True, sb_sharedGroup = '''', sb_wireFormat = None,
     sb_onDecodeError = None, sb_logger = Some ''nop'', sb_meterProvider = None,
     sb_tracerProvider = None\<rparr>"

definition completeSubscription ::
  "('m, 'e) topic_subscription \<Rightarrow> ('m, 'e) topic_subscription" where
  "completeSubscription sub =
     (if BrokerTopic sub = '''' then sub\<lparr>BrokerTopic := stripFieldNames (MQTTPattern sub)\<rparr>
      else sub)"

datatype ('c, 'm, 'e) subscriber_option =
    WithSubscription "('m, 'e) topic_subscription"
  | WithSubscriber "('c, 'm, 'e) event_func option"
  | WithHandleRetained bool
  | WithSharedGroup string
  | WithSubWireFormat "('m, 'e) wire_format option"
  | WithSubWireFormatName string
  | WithDecodeErrorHook "opaque option"
  | WithSubLogger "opaque option"
  | WithSubClientName string
  | WithSubMeterProvider "opaque option"
  | WithSubTracerProvider "opaque option"

fun set_subscriber_option ::
  "(string \<Rightarrow> ('m, 'e) wire_format option) \<Rightarrow> ('c, 'm, 'e) subscriber_builder
    \<Rightarrow> ('c, 'm, 'e) subscriber_option \<Rightarrow> ('c, 'm, 'e) subscriber_builder" where
  "set_subscriber_option byName b (WithSubscription sub) =
     b\<lparr>sb_subscriptions := sb_subscriptions b @ [completeSubscription sub]\<rparr>"
| "set_subscriber_option byName b (WithSubscriber s) = b\<lparr>sb_subscriber := s\<rparr>"
| "set_subscriber_option byName b (WithHandleRetained v) = b\<lparr>sb_handleRetained := v\<rparr>"
| "set_subscriber_option byName b (WithSharedGroup g) = b\<lparr>sb_sharedGroup := g\<rparr>"
| "set_subscriber_option byName b (WithSubWireFormat f) = b\<lparr>sb_wireFormat := f\<rparr>"
| "set_subscriber_option byName b (WithSubWireFormatName n) = b\<lparr>sb_wireFormat := byName n\<rparr>"
| "set_subscriber_option byName b (WithDecodeErrorHook h) = b\<lparr>sb_onDecodeError := h\<rparr>"
| "set_subscriber_option byName b (WithSubLogger l) =
     (if l \<noteq> None then b\<lparr>sb_logger := l\<rparr> else b)"
| "set_subscriber_option byName b (WithSubClientName n) = b\<lparr>sb_clientName := n\<rparr>"
| "set_subscriber_option byName b (WithSubMeterProvider p) = b\<lparr>sb_meterProvider := p\<rparr>"
| "set_subscriber_option byName b (WithSubTracerProvider tp) = b\<lparr>sb_tracerProvider := tp\<rparr>"

datatype sub_build_error = SubscriberRequired | SubscriptionRequired

definition BuildSubscriber ::
  "('m, 'e) wire_format \<Rightarrow> ('c, 'm, 'e) subscriber_builder
    \<Rightarrow> sub_build_error + ('c, 'm, 'e) subscriber" where
  "BuildSubscriber auto b =
     (if sb_subscriber b = None then Inl SubscriberRequired
      else if length (sb_subscriptions b) = 0 then Inl SubscriptionRequired
      else
        (let meter = (case sb_meterProvider b of
                        None \<Rightarrow> None
                      | Some _ \<Rightarrow> Some ''github.com/tsarna/vinculum-mqtt/subscriber'');
             wf = (case sb_wireFormat b of None \<Rightarrow> auto | Some f \<Rightarrow> f)
         in Inr \<lparr>s_subscriptions = sb_subscriptions b,
                 s_subscriber = sb_subscriber b,
                 s_handleRetained = sb_handleRetained b,
                 s_sharedGroup = sb_sharedGroup b,
                 s_wireFormat = Some wf,
                 s_onDecodeError = sb_onDecodeError b,
                 s_logger = sb_logger b,
                 s_metrics = NewSubscriberMetrics (sb_clientName b) meter,
                 s_tracerProvider = sb_tracerProvider b\<rparr>))"

section \<open>Subscriptions\<close>

definition BrokerSubscriptions :: "('c, 'm, 'e) subscriber \<Rightarrow> subscribe_options list" where
  "BrokerSubscriptions s =
     map (\<lambda>sub.
       let topic = BrokerTopic sub;
           topic = (if s_sharedGroup s \<noteq> '''' then ''$share/'' @ s_sharedGroup s @ ''/'' @ topic
                    else topic)
       in \<lparr>so_Topic = topic, so_QoS = SubQoS sub\<rparr>) (s_subscriptions s)"

definition MQTTPatterns :: "('c, 'm, 'e) subscriber \<Rightarrow> string list" where
  "MQTTPatterns s = map MQTTPattern (s_subscriptions s)"

fun find_loop ::
  "'c runtime \<Rightarrow> string \<Rightarrow> ('m, 'e) topic_subscription list
    \<Rightarrow> 'e sub_error + ('m, 'e) topic_subscription" where
  "find_loop rt mqttTopic [] = Inl (NoSubscriptionMatched mqttTopic)"
| "find_loop rt mqttTopic (sub # subs) =
     (if Matches rt (MQTTPattern sub) mqttTopic then Inr sub else find_loop rt mqttTopic subs)"

definition findSubscription ::
  "'c runtime \<Rightarrow> ('c, 'm, 'e) subscriber \<Rightarrow> string
    \<Rightarrow> 'e sub_error + ('m, 'e) topic_subscription" where
  "findSubscription rt s mqttTopic = find_loop rt mqttTopic (s_subscriptions s)"

section \<open>Fields\<close>

definition isTrace :: "string \<Rightarrow> bool" where
  "isTrace key \<longleftrightarrow> key \<in> set traceHeaders"

definition userPropertiesToFields :: "publish_properties option \<Rightarrow> (string, string) gomap" where
  "userPropertiesToFields ps =
     (case ps of
        None \<Rightarrow> None
      | Some pp \<Rightarrow>
          if length (User pp) = 0 then None
          else
            (let m = foldl (\<lambda>m p. if \<not> isTrace (Key p) then fmupd (Key p) (Value p) m else m)
                       fmempty (User pp)
             in if gm_len (Some m) = 0 then None else Some m))"

text \<open>
  The fields of an event: user properties, then the values the pattern extracts, then the
  mark of a retained message. Each write comes after a check that the map is there.
\<close>

definition messageFields ::
  "'c runtime \<Rightarrow> ('m, 'e) topic_subscription \<Rightarrow> publish \<Rightarrow> (string, string) gomap outcome" where
  "messageFields rt sub msg =
     (let flds = userPropertiesToFields (pub_Properties msg);
          extracted = Extract rt (MQTTPattern sub) (pub_Topic msg)
      in case (if gm_len extracted > 0
               then range_assign (if flds = None then Some fmempty else flds)
                      (range_fields rt extracted)
               else Ret flds) of
           Panic q \<Rightarrow> Panic q
         | Ret flds \<Rightarrow>
             if pub_Retain msg
             then gm_set (if flds = None then Some fmempty else flds) ''$retained'' ''true''
             else Ret flds)"

section \<open>HandleMessage\<close>

text \<open>
  A payload that does not decode is logged, counted and shown to the hook, and is an error
  whatever the hook does.
\<close>

definition decodeFailed ::
  "('c, 'm, 'e) subscriber \<Rightarrow> ('m, 'e) wire_format \<Rightarrow> 'c \<Rightarrow> publish \<Rightarrow> 'e
    \<Rightarrow> (('c, 'm, 'e) sub_effect, 'e sub_error + 'm any) comp" where
  "decodeFailed s wfm ctx msg e =
     (case s_logger s of
        None \<Rightarrow> panic NilDereference
      | Some _ \<Rightarrow>
          ([SubLogDecodeError (pub_Topic msg) (wf_Name wfm) e]
           @ sub_measures (SM_RecordError (s_metrics s) (pub_Topic msg) ''deserialize'')
           @ (case s_onDecodeError s of
                None \<Rightarrow> []
              | Some hook \<Rightarrow> [SubDecodeHook hook ctx
                  \<lparr>de_Raw = pub_Payload msg, de_Err = e, de_Format = wf_Name wfm,
                   de_Topic = pub_Topic msg,
                   de_Attrs = Some (fmap_of_list [(''mqtt_topic'', pub_Topic msg)])\<rparr>]),
           Ret (Inl (DeserializePayload (pub_Topic msg) e))))"

definition decodePayload ::
  "('c, 'm, 'e) subscriber \<Rightarrow> 'c \<Rightarrow> publish
    \<Rightarrow> (('c, 'm, 'e) sub_effect, 'e sub_error + 'm any) comp" where
  "decodePayload s ctx msg =
     (case pub_Payload msg of
        None \<Rightarrow> ret (Inr None)
      | Some _ \<Rightarrow>
          (case s_wireFormat s of
             None \<Rightarrow> panic NilDereference
           | Some wfm \<Rightarrow>
               (case wf_Deserialize wfm (pub_Payload msg) of
                  Inl e \<Rightarrow> decodeFailed s wfm ctx msg e
                | Inr v \<Rightarrow> ret (Inr v))))"

text \<open>The producer's context, and the processing context with its baggage.\<close>

definition remoteContext :: "'c runtime \<Rightarrow> publish \<Rightarrow> 'c" where
  "remoteContext rt msg =
     (let rawProps = (case pub_Properties msg of None \<Rightarrow> [] | Some pp \<Rightarrow> User pp)
      in prop_Extract rt (New rawProps))"

definition processingContext :: "'c runtime \<Rightarrow> 'c \<Rightarrow> 'c \<Rightarrow> 'c" where
  "processingContext rt ctx remote =
     (if baggage_len rt remote > 0 then with_baggage rt ctx remote else ctx)"

definition vinculumTopic ::
  "('m, 'e) topic_subscription \<Rightarrow> publish \<Rightarrow> (string, string) gomap \<Rightarrow> 'm any
    \<Rightarrow> 'e sub_error + string" where
  "vinculumTopic sub msg flds v =
     (case VinculumTopicFunc sub of
        None \<Rightarrow> Inr (pub_Topic msg)
      | Some f \<Rightarrow>
          (case f (pub_Topic msg) flds v of
             Inl e \<Rightarrow> Inl (ResolveVinculumTopic (pub_Topic msg) e)
           | Inr t \<Rightarrow> Inr (if t = '''' then pub_Topic msg else t)))"

text \<open>Delivery inside the consumer span, a new root linked to the producer's span.\<close>

definition deliver ::
  "'c runtime \<Rightarrow> ('c, 'm, 'e) subscriber \<Rightarrow> 'c \<Rightarrow> 'c \<Rightarrow> publish \<Rightarrow> string \<Rightarrow> 'm any
    \<Rightarrow> (string, string) gomap \<Rightarrow> (('c, 'm, 'e) sub_effect, 'e sub_error option) comp" where
  "deliver rt s ctx remote msg topic v flds =
     (let name = ''process '' @ topic;
          opts = \<lparr>sp_NewRoot = True, sp_Kind = SpanKindConsumer,
                  sp_Attributes = [MessagingSystem ''mqtt'',
                    MessagingDestinationName (pub_Topic msg),
                    MessagingOperationTypeDeliver, MessagingOperationName ''process''],
                  sp_Link = (if span_ctx_valid rt remote then Some remote else None)\<rparr>;
          ctx' = span_ctx rt (s_tracerProvider s) ctx name;
          begun = [SubSpan (SpanStart (s_tracerProvider s) ''vinculum-mqtt/subscriber'' name opts)]
      in case s_subscriber s of
           None \<Rightarrow> (begun @ [SubSpan SpanEnd], Panic NilDereference)
         | Some onEvent \<Rightarrow>
             (let called = begun @ [SubEvent ctx' topic v flds]
                    @ sub_measures (SM_RecordProcessDuration (s_metrics s) (pub_Topic msg)
                        (since_start rt))
              in case onEvent ctx' topic v flds of
                   Some e \<Rightarrow>
                     (called @ [SubSpan (SpanRecordError e), SubSpan (SpanSetStatusError e)]
                        @ sub_measures (SM_RecordError (s_metrics s) (pub_Topic msg) ''subscriber'')
                        @ [SubSpan SpanEnd],
                      Ret (Some (Downstream e)))
                 | None \<Rightarrow>
                     (called @ sub_measures (SM_RecordReceived (s_metrics s) (pub_Topic msg))
                        @ [SubSpan SpanEnd],
                      Ret None)))"

text \<open>What follows a decoded payload: context, fields, topic, delivery.\<close>

definition processMessage ::
  "'c runtime \<Rightarrow> ('c, 'm, 'e) subscriber \<Rightarrow> 'c \<Rightarrow> publish \<Rightarrow> ('m, 'e) topic_subscription \<Rightarrow> 'm any
    \<Rightarrow> (('c, 'm, 'e) sub_effect, 'e sub_error option) comp" where
  "processMessage rt s ctx msg sub v =
     (let remote = remoteContext rt msg;
          ctx = processingContext rt ctx remote
      in case messageFields rt sub msg of
           Panic q \<Rightarrow> panic q
         | Ret flds \<Rightarrow>
             (case vinculumTopic sub msg flds v of
                Inl e \<Rightarrow>
                  (sub_measures (SM_RecordError (s_metrics s) (pub_Topic msg) ''vinculum_topic''),
                   Ret (Some e))
              | Inr topic \<Rightarrow> deliver rt s ctx remote msg topic v flds))"

definition HandleMessage ::
  "'c runtime \<Rightarrow> ('c, 'm, 'e) subscriber \<Rightarrow> 'c \<Rightarrow> publish
    \<Rightarrow> (('c, 'm, 'e) sub_effect, 'e sub_error option) comp" where
  "HandleMessage rt s ctx msg =
     (if pub_Retain msg \<and> \<not> s_handleRetained s then ret None
      else
        (case findSubscription rt s (pub_Topic msg) of
           Inl e \<Rightarrow>
             (sub_measures (SM_RecordError (s_metrics s) (pub_Topic msg) ''subscription''),
              Ret (Some e))
         | Inr sub \<Rightarrow>
             seq (decodePayload s ctx msg) (\<lambda>d.
               case d of
                 Inl e \<Rightarrow> ret (Some e)
               | Inr v \<Rightarrow> processMessage rt s ctx msg sub v)))"

section \<open>The subscription in force\<close>

interpretation subscription: first_match
  "find_loop rt topic" "\<lambda>sub. Matches rt (MQTTPattern sub) topic" Inr
  "Inl (NoSubscriptionMatched topic)"
  for rt topic
  by unfold_locales simp_all

text \<open>A subscription is found exactly when one of the patterns the router is given matches.\<close>

lemma findSubscription_Inl_iff:
  "(\<exists>e. findSubscription rt s topic = Inl e) \<longleftrightarrow> (\<forall>p \<in> set (MQTTPatterns s). \<not> Matches rt p topic)"
  unfolding findSubscription_def MQTTPatterns_def
  by (cases rule: subscription.run_cases [of "s_subscriptions s" rt topic]) auto

lemma findSubscription_mem: "findSubscription rt s topic = Inr sub \<Longrightarrow> sub \<in> set (s_subscriptions s)"
  unfolding findSubscription_def
  by (cases rule: subscription.run_cases [of "s_subscriptions s" rt topic]) auto

lemma findSubscription_error:
  "findSubscription rt s topic = Inl e \<Longrightarrow> e = NoSubscriptionMatched topic"
  unfolding findSubscription_def
  by (cases rule: subscription.run_cases [of "s_subscriptions s" rt topic]) auto

section \<open>The fields of an event\<close>

text \<open>The value of a key among the user properties: the last one counts, trace headers do not.\<close>

definition last_value :: "user_properties \<Rightarrow> string \<Rightarrow> string option" where
  "last_value ps k =
     (if isTrace k then None else map_of (rev (map (\<lambda>p. (Key p, Value p)) ps)) k)"

lemma last_value_Nil [simp]: "last_value [] = Map.empty"
  by (simp add: last_value_def fun_eq_iff)

lemma foldl_user_fields:
  "fmlookup (foldl (\<lambda>m p. if \<not> isTrace (Key p) then fmupd (Key p) (Value p) m else m) f ps)
     = fmlookup f ++ last_value ps"
proof (induction ps arbitrary: f)
  case (Cons p ps)
  then show ?case
    by (auto simp: last_value_def map_add_def fun_eq_iff split: option.splits)
qed simp

lemma userPropertiesToFields_get:
  "gm_get (userPropertiesToFields ps) = (case ps of None \<Rightarrow> Map.empty | Some pp \<Rightarrow> last_value (User pp))"
proof (cases ps)
  case (Some pp)
  let ?m = "foldl (\<lambda>m p. if \<not> isTrace (Key p) then fmupd (Key p) (Value p) m else m) fmempty (User pp)"
  have m: "gm_get (Some ?m) = last_value (User pp)"
    by (simp add: foldl_user_fields)
  then have "gm_len (Some ?m) = 0 \<longleftrightarrow> last_value (User pp) = Map.empty"
    by (simp only: gm_len_0_iff)
  moreover have "User pp = [] \<Longrightarrow> last_value (User pp) = Map.empty"
    by simp
  ultimately show ?thesis
    using Some m by (auto simp: userPropertiesToFields_def Let_def)
qed (simp add: userPropertiesToFields_def)

lemma userPropertiesToFields_nil_iff:
  "userPropertiesToFields ps = None \<longleftrightarrow> gm_get (userPropertiesToFields ps) = Map.empty"
  by (auto simp: userPropertiesToFields_def Let_def gm_len_0_iff simp flip: gm_get_simps(2)
      split: option.splits if_splits)

lemma messageFields_Ret: "\<exists>m. messageFields rt sub msg = Ret m"
proof -
  let ?f = "userPropertiesToFields (pub_Properties msg)"
  let ?ex = "range_fields rt (Extract rt (MQTTPattern sub) (pub_Topic msg))"
  obtain f where f: "(if ?f = None then Some fmempty else ?f) = Some f"
    by (cases ?f) auto
  obtain g where "range_assign (Some f) ?ex = Ret (Some g)"
    using range_assign_Some by blast
  with f show ?thesis by (auto simp: messageFields_def Let_def)
qed

text \<open>The fields an event should have: the retained mark, then extracted values, then properties.\<close>

definition event_fields ::
  "'c runtime \<Rightarrow> ('m, 'e) topic_subscription \<Rightarrow> publish \<Rightarrow> string \<Rightarrow> string option" where
  "event_fields rt sub msg k =
     (if pub_Retain msg \<and> k = ''$retained'' then Some ''true''
      else case gm_get (Extract rt (MQTTPattern sub) (pub_Topic msg)) k of
             Some v \<Rightarrow> Some v
           | None \<Rightarrow> (case pub_Properties msg of None \<Rightarrow> None | Some pp \<Rightarrow> last_value (User pp) k))"

lemma messageFields_get:
  assumes "ranges_ok rt" and "messageFields rt sub msg = Ret m"
  shows "gm_get m = event_fields rt sub msg"
proof -
  let ?f = "userPropertiesToFields (pub_Properties msg)"
  let ?ex = "Extract rt (MQTTPattern sub) (pub_Topic msg)"
  let ?merged = "if gm_len ?ex > 0 then gm_merge (if ?f = None then Some fmempty else ?f) ?ex else Ret ?f"
  have "\<exists>g. ?merged = Ret g"
    by (cases ?f) (simp_all add: gm_merge_Some)
  then obtain g where g: "?merged = Ret g" by blast
  have "gm_get g = gm_get ?f ++ gm_get ?ex"
  proof (cases "gm_len ?ex = 0")
    case True
    with g show ?thesis by (simp add: gm_len_0_iff)
  next
    case False
    with g have "gm_get g = gm_get (if ?f = None then Some fmempty else ?f) ++ gm_get ?ex"
      by (intro gm_merge_get) auto
    then show ?thesis by (cases ?f) simp_all
  qed
  moreover have "(if pub_Retain msg
      then gm_set (if g = None then Some fmempty else g) ''$retained'' ''true'' else Ret g) = Ret m"
    using assms(2) g unfolding messageFields_def Let_def ranges_ok_merge [OF assms(1)] by simp
  then have "gm_get m = (if pub_Retain msg then (gm_get g)(''$retained'' \<mapsto> ''true'') else gm_get g)"
    by (cases g) (auto split: if_splits)
  ultimately show ?thesis
    by (auto simp: event_fields_def userPropertiesToFields_get map_add_def fun_eq_iff
        split: option.splits)
qed

section \<open>What a message leads to\<close>

definition sub_events ::
  "('c, 'm, 'e) sub_effect list \<Rightarrow> ('c \<times> string \<times> 'm any \<times> (string, string) gomap) list" where
  "sub_events fs = concat (map (\<lambda>f. case f of SubEvent c t v m \<Rightarrow> [(c, t, v, m)] | _ \<Rightarrow> []) fs)"

definition sub_measurements :: "('c, 'm, 'e) sub_effect list \<Rightarrow> measurement list" where
  "sub_measurements fs = concat (map (\<lambda>f. case f of SubMeasure m \<Rightarrow> [m] | _ \<Rightarrow> []) fs)"

definition sub_hooks :: "('c, 'm, 'e) sub_effect list \<Rightarrow> (opaque \<times> 'c \<times> 'e decode_error) list" where
  "sub_hooks fs = concat (map (\<lambda>f. case f of SubDecodeHook h c d \<Rightarrow> [(h, c, d)] | _ \<Rightarrow> []) fs)"

definition sub_spans :: "('c, 'm, 'e) sub_effect list \<Rightarrow> ('c, 'e) span_event list" where
  "sub_spans fs = concat (map (\<lambda>f. case f of SubSpan x \<Rightarrow> [x] | _ \<Rightarrow> []) fs)"

lemmas sub_projection_defs =
  sub_events_def sub_measurements_def sub_hooks_def sub_spans_def

lemma sub_projections [simp]:
  "sub_events [] = []" "sub_measurements [] = []" "sub_hooks [] = []" "sub_spans [] = []"
  "sub_events (SubEvent c t v m # fs) = (c, t, v, m) # sub_events fs"
  "sub_events (SubMeasure x # fs) = sub_events fs" "sub_events (SubSpan y # fs) = sub_events fs"
  "sub_events (SubLogDecodeError a b e # fs) = sub_events fs"
  "sub_events (SubDecodeHook h c d # fs) = sub_events fs"
  "sub_measurements (SubEvent c t v m # fs) = sub_measurements fs"
  "sub_measurements (SubMeasure x # fs) = x # sub_measurements fs"
  "sub_measurements (SubSpan y # fs) = sub_measurements fs"
  "sub_measurements (SubLogDecodeError a b e # fs) = sub_measurements fs"
  "sub_measurements (SubDecodeHook h c d # fs) = sub_measurements fs"
  "sub_hooks (SubEvent c t v m # fs) = sub_hooks fs" "sub_hooks (SubMeasure x # fs) = sub_hooks fs"
  "sub_hooks (SubSpan y # fs) = sub_hooks fs"
  "sub_hooks (SubLogDecodeError a b e # fs) = sub_hooks fs"
  "sub_hooks (SubDecodeHook h c d # fs) = (h, c, d) # sub_hooks fs"
  "sub_spans (SubEvent c t v m # fs) = sub_spans fs" "sub_spans (SubMeasure x # fs) = sub_spans fs"
  "sub_spans (SubSpan y # fs) = y # sub_spans fs"
  "sub_spans (SubLogDecodeError a b e # fs) = sub_spans fs"
  "sub_spans (SubDecodeHook h c d # fs) = sub_spans fs"
  by (simp_all add: sub_projection_defs)

lemma sub_projections_append [simp]:
  "sub_events (fs @ gs) = sub_events fs @ sub_events gs"
  "sub_measurements (fs @ gs) = sub_measurements fs @ sub_measurements gs"
  "sub_hooks (fs @ gs) = sub_hooks fs @ sub_hooks gs"
  "sub_spans (fs @ gs) = sub_spans fs @ sub_spans gs"
  by (simp_all add: sub_projection_defs)

lemma sub_projections_measures [simp]:
  "sub_events (sub_measures ms) = []" "sub_measurements (sub_measures ms) = ms"
  "sub_hooks (sub_measures ms) = []" "sub_spans (sub_measures ms) = []"
  by (induction ms) simp_all

text \<open>A subscriber as the builder makes it: nothing that \<open>HandleMessage\<close> dereferences is nil.\<close>

definition wired :: "('c, 'm, 'e) subscriber \<Rightarrow> bool" where
  "wired s \<longleftrightarrow> s_subscriber s \<noteq> None \<and> s_wireFormat s \<noteq> None \<and> s_logger s \<noteq> None"

text \<open>The payload as the wire format reads it; no payload is a nil value.\<close>

definition decoded :: "('m, 'e) wire_format \<Rightarrow> publish \<Rightarrow> 'e + 'm any" where
  "decoded wfm msg =
     (if pub_Payload msg = None then Inr None else wf_Deserialize wfm (pub_Payload msg))"

lemma decodePayload_decoded:
  assumes "s_wireFormat s = Some wfm"
  shows "decodePayload s ctx msg =
    (case decoded wfm msg of Inl e \<Rightarrow> decodeFailed s wfm ctx msg e | Inr v \<Rightarrow> ret (Inr v))"
  using assms by (auto simp: decodePayload_def decoded_def split: option.splits sum.splits)

text \<open>The five ways a message can end, in the order of the code's returns.\<close>

lemma HandleMessage_cases:
  assumes "wired s" and wfm: "s_wireFormat s = Some wfm"
  obtains
    (Ignored) "pub_Retain msg" "\<not> s_handleRetained s" "HandleMessage rt s ctx msg = ([], Ret None)"
  | (Unmatched) "\<not> (pub_Retain msg \<and> \<not> s_handleRetained s)"
      "findSubscription rt s (pub_Topic msg) = Inl (NoSubscriptionMatched (pub_Topic msg))"
      "HandleMessage rt s ctx msg =
         (sub_measures (SM_RecordError (s_metrics s) (pub_Topic msg) ''subscription''),
          Ret (Some (NoSubscriptionMatched (pub_Topic msg))))"
  | (Undecodable) sub e where "\<not> (pub_Retain msg \<and> \<not> s_handleRetained s)"
      "findSubscription rt s (pub_Topic msg) = Inr sub"
      "decoded wfm msg = Inl e"
      "HandleMessage rt s ctx msg = (effects (decodeFailed s wfm ctx msg e),
         Ret (Some (DeserializePayload (pub_Topic msg) e)))"
  | (TopicFailed) sub v flds e where "\<not> (pub_Retain msg \<and> \<not> s_handleRetained s)"
      "findSubscription rt s (pub_Topic msg) = Inr sub"
      "decoded wfm msg = Inr v" "messageFields rt sub msg = Ret flds"
      "vinculumTopic sub msg flds v = Inl (ResolveVinculumTopic (pub_Topic msg) e)"
      "HandleMessage rt s ctx msg =
         (sub_measures (SM_RecordError (s_metrics s) (pub_Topic msg) ''vinculum_topic''),
          Ret (Some (ResolveVinculumTopic (pub_Topic msg) e)))"
  | (Delivered) sub v flds topic where "\<not> (pub_Retain msg \<and> \<not> s_handleRetained s)"
      "findSubscription rt s (pub_Topic msg) = Inr sub"
      "decoded wfm msg = Inr v" "messageFields rt sub msg = Ret flds"
      "vinculumTopic sub msg flds v = Inr topic"
      "HandleMessage rt s ctx msg =
         deliver rt s (processingContext rt ctx (remoteContext rt msg)) (remoteContext rt msg)
           msg topic v flds"
proof (cases "pub_Retain msg \<and> \<not> s_handleRetained s")
  case True
  then show thesis using Ignored by (simp add: HandleMessage_def ret_def)
next
  case kept: False
  show thesis
  proof (cases "findSubscription rt s (pub_Topic msg)")
    case (Inl e)
    with kept show thesis
      using Unmatched findSubscription_error [OF Inl] by (auto simp: HandleMessage_def)
  next
    case (Inr sub)
    note step = kept Inr
    show thesis
    proof (cases "decoded wfm msg")
      case (Inl e)
      obtain l where "s_logger s = Some l"
        using assms(1) by (auto simp: wired_def)
      then show thesis
        using Undecodable [OF step Inl] step Inl
        by (simp add: HandleMessage_def decodePayload_decoded [OF wfm] decodeFailed_def)
    next
      case (Inr v)
      obtain flds where flds: "messageFields rt sub msg = Ret flds"
        using messageFields_Ret by blast
      have run: "HandleMessage rt s ctx msg = processMessage rt s ctx msg sub v"
        using step Inr by (auto simp: HandleMessage_def decodePayload_decoded [OF wfm])
      show thesis
      proof (cases "vinculumTopic sub msg flds v")
        case (Inl e)
        then obtain x where "e = ResolveVinculumTopic (pub_Topic msg) x"
          by (auto simp: vinculumTopic_def split: option.splits sum.splits)
        with Inl show thesis
          using TopicFailed [OF step Inr flds] flds run by (simp add: processMessage_def Let_def)
      next
        case (Inr topic)
        then show thesis
          using Delivered [OF step \<open>decoded wfm msg = Inr v\<close> flds] flds run
          by (simp add: processMessage_def Let_def)
      qed
    qed
  qed
qed

lemma deliver_events:
  "s_subscriber s = Some ev \<Longrightarrow>
     sub_events (effects (deliver rt s ctx remote msg topic v flds)) =
       [(span_ctx rt (s_tracerProvider s) ctx (''process '' @ topic), topic, v, flds)]"
  by (simp add: deliver_def Let_def split: option.splits)

lemma deliver_result:
  "s_subscriber s = Some ev \<Longrightarrow>
     outcome (deliver rt s ctx remote msg topic v flds) =
       Ret (map_option Downstream
         (ev (span_ctx rt (s_tracerProvider s) ctx (''process '' @ topic)) topic v flds))"
  by (simp add: deliver_def Let_def split: option.splits)

lemma built_wired: "BuildSubscriber auto b = Inr s \<Longrightarrow> sb_logger b \<noteq> None \<Longrightarrow> wired s"
  by (auto simp: BuildSubscriber_def wired_def Let_def split: if_splits)

lemma wired_format: "wired s \<Longrightarrow> \<exists>wfm. s_wireFormat s = Some wfm"
  by (auto simp: wired_def)

lemma decodeFailed_effects:
  "wired s \<Longrightarrow> effects (decodeFailed s wfm ctx msg e) =
     SubLogDecodeError (pub_Topic msg) (wf_Name wfm) e
     # sub_measures (SM_RecordError (s_metrics s) (pub_Topic msg) ''deserialize'')
     @ (case s_onDecodeError s of None \<Rightarrow> [] | Some hook \<Rightarrow> [SubDecodeHook hook ctx
          \<lparr>de_Raw = pub_Payload msg, de_Err = e, de_Format = wf_Name wfm,
           de_Topic = pub_Topic msg,
           de_Attrs = Some (fmap_of_list [(''mqtt_topic'', pub_Topic msg)])\<rparr>])"
  by (auto simp: wired_def decodeFailed_def)

section \<open>Properties\<close>

text \<open>C6: a message that a wired subscriber accepts becomes exactly one event. The first
  subscription whose pattern matches decides, whatever subscriptions follow it; the event has
  the decoded payload, the topic that subscription's function returns (the MQTT topic where
  that is empty, or where there is no function), and fields in which the retained mark overrides the extracted values and
  those override the user properties. The outcome is the downstream result.\<close>

theorem HandleMessage_delivers:
  assumes "wired s" and "s_subscriber s = Some ev" and "s_wireFormat s = Some wfm"
    and "pub_Retain msg \<longrightarrow> s_handleRetained s"
    and "s_subscriptions s = pre @ sub # post"
    and "\<forall>q \<in> set pre. \<not> Matches rt (MQTTPattern q) (pub_Topic msg)"
    and "Matches rt (MQTTPattern sub) (pub_Topic msg)"
    and "decoded wfm msg = Inr v" and "ranges_ok rt"
    and "case VinculumTopicFunc sub of
           None \<Rightarrow> t = pub_Topic msg
         | Some f \<Rightarrow> \<forall>g. gm_get g = event_fields rt sub msg \<longrightarrow> f (pub_Topic msg) g v = Inr t"
  shows "\<exists>c dest flds. dest = (if t = '''' then pub_Topic msg else t)
    \<and> sub_events (effects (HandleMessage rt s ctx msg)) = [(c, dest, v, flds)]
    \<and> gm_get flds = event_fields rt sub msg
    \<and> outcome (HandleMessage rt s ctx msg) = Ret (map_option Downstream (ev c dest v flds))"
proof -
  let ?dest = "if t = '''' then pub_Topic msg else t"
  have found: "findSubscription rt s (pub_Topic msg) = Inr sub"
    unfolding findSubscription_def assms(5) by (rule subscription.run_first [OF assms(6,7)])
  obtain flds where flds: "messageFields rt sub msg = Ret flds"
    using messageFields_Ret by blast
  then have get: "gm_get flds = event_fields rt sub msg"
    by (rule messageFields_get [OF assms(9)])
  with assms(10) have "vinculumTopic sub msg flds v = Inr ?dest"
    by (auto simp: vinculumTopic_def split: option.splits)
  then have "HandleMessage rt s ctx msg =
      deliver rt s (processingContext rt ctx (remoteContext rt msg)) (remoteContext rt msg)
        msg ?dest v flds"
    using assms(4) found flds
    by (auto simp: HandleMessage_def processMessage_def Let_def decodePayload_decoded [OF assms(3)]
        assms(8))
  then show ?thesis
    using get by (simp add: deliver_events [OF assms(2)] deliver_result [OF assms(2)])
qed

text \<open>C22: the wire format is a contract. A payload that does not decode is never delivered: the
  error comes back whether or not a hook is set, the failure is counted once with the error
  type deserialize, and a hook is called exactly once, with the raw payload, the decoder's
  error and the topic.\<close>

theorem HandleMessage_decode_failure:
  assumes "wired s" and "s_wireFormat s = Some wfm"
    and "pub_Retain msg \<longrightarrow> s_handleRetained s"
    and "findSubscription rt s (pub_Topic msg) = Inr sub" and "decoded wfm msg = Inl e"
  shows "outcome (HandleMessage rt s ctx msg) = Ret (Some (DeserializePayload (pub_Topic msg) e))
    \<and> sub_events (effects (HandleMessage rt s ctx msg)) = []
    \<and> sub_measurements (effects (HandleMessage rt s ctx msg)) =
        SM_RecordError (s_metrics s) (pub_Topic msg) ''deserialize''
    \<and> map (\<lambda>(h, c, d). (h, c, de_Raw d, de_Err d, de_Topic d, gm_index '''' (de_Attrs d) ''mqtt_topic''))
          (sub_hooks (effects (HandleMessage rt s ctx msg))) =
        (case s_onDecodeError s of
           None \<Rightarrow> []
         | Some h \<Rightarrow> [(h, ctx, pub_Payload msg, e, pub_Topic msg, pub_Topic msg)])"
  using assms(1,2)
proof (cases rule: HandleMessage_cases [of s wfm msg rt ctx])
  case (Undecodable sub' e')
  with assms(5) have "e' = e" by simp
  then show ?thesis
    unfolding Undecodable(4)
    by (simp add: decodeFailed_effects [OF assms(1)] gm_index_def split: option.split)
qed (use assms(3-5) in auto)

text \<open>A wired subscriber returns nil without any effect exactly for a retained message that
  it is configured not to handle. Every other message is delivered or is an error.\<close>

theorem HandleMessage_ignores_iff:
  assumes "wired s"
  shows "HandleMessage rt s ctx msg = ([], Ret None)
    \<longleftrightarrow> pub_Retain msg \<and> \<not> s_handleRetained s"
proof -
  obtain wfm where wfm: "s_wireFormat s = Some wfm"
    using wired_format [OF assms] by blast
  obtain ev where ev: "s_subscriber s = Some ev"
    using assms by (auto simp: wired_def)
  show ?thesis
    using assms wfm
  proof (cases rule: HandleMessage_cases [of s wfm msg rt ctx])
    case (Delivered sub v flds topic)
    have "sub_events (effects (HandleMessage rt s ctx msg)) \<noteq> []"
      unfolding Delivered(6) by (simp add: deliver_events [OF ev])
    then show ?thesis using Delivered(1) by (metis effects_simps(1) sub_projections(1))
  qed auto
qed

text \<open>The user properties of a message become fields by this rule: a key outside the W3C
  trace headers has the value of its last occurrence, a trace header is never a field, and
  the map is nil exactly when no property is left.\<close>

theorem userPropertiesToFields_spec:
  "gm_get (userPropertiesToFields (Some \<lparr>User = ps\<rparr>)) k =
     (if k \<in> set [''traceparent'', ''tracestate'', ''baggage''] then None
      else map_option Value (List.find (\<lambda>p. Key p = k) (rev ps)))
   \<and> (userPropertiesToFields (Some \<lparr>User = ps\<rparr>) = None
        \<longleftrightarrow> filter (\<lambda>p. Key p \<notin> set [''traceparent'', ''tracestate'', ''baggage'']) ps = [])"
proof -
  have last: "map_of (map (\<lambda>p. (Key p, Value p)) qs) k = map_option Value (List.find (\<lambda>p. Key p = k) qs)"
    for qs and k
    by (induction qs) auto
  have trace: "isTrace k \<longleftrightarrow> k \<in> set [''traceparent'', ''tracestate'', ''baggage'']" for k
    by (simp add: isTrace_def traceHeaders_def)
  have get: "gm_get (userPropertiesToFields (Some \<lparr>User = ps\<rparr>)) k =
      (if isTrace k then None else map_option Value (List.find (\<lambda>p. Key p = k) (rev ps)))" for k
    by (simp add: userPropertiesToFields_get last_value_def last rev_map)
  have "userPropertiesToFields (Some \<lparr>User = ps\<rparr>) = None \<longleftrightarrow> (\<forall>p \<in> set ps. isTrace (Key p))"
    unfolding userPropertiesToFields_nil_iff fun_eq_iff get by (auto simp: find_None_iff)
  then show ?thesis
    using get by (simp add: trace filter_empty_conv)
qed

section \<open>The books of one message\<close>

text \<open>
  What must have been measured, traced and delivered, given the result of a message. A
  delivery is timed whether it fails or not, and only a successful one counts as received.
\<close>

definition balanced ::
  "'c runtime \<Rightarrow> ('c, 'm, 'e) subscriber \<Rightarrow> publish \<Rightarrow> ('c, 'm, 'e) sub_effect list
    \<Rightarrow> 'e sub_error option \<Rightarrow> bool" where
  "balanced rt s msg effs res \<longleftrightarrow>
     (let t = pub_Topic msg; m = s_metrics s;
          timed = SM_RecordProcessDuration m t (since_start rt);
          spanned = (\<lambda>err. list_all (\<lambda>(c, topic, v, flds). one_span (s_tracerProvider s)
            ''vinculum-mqtt/subscriber'' (''process '' @ topic) err (sub_spans effs)) (sub_events effs))
      in length (sub_events effs) \<le> 1 \<and> (sub_events effs = [] \<longleftrightarrow> sub_spans effs = []) \<and>
         (case res of
            None \<Rightarrow> effs = [] \<or>
              length (sub_events effs) = 1 \<and> spanned None \<and> last effs = SubSpan SpanEnd \<and>
              sub_measurements effs = timed @ SM_RecordReceived m t
          | Some (Downstream e) \<Rightarrow>
              length (sub_events effs) = 1 \<and> spanned (Some e) \<and> last effs = SubSpan SpanEnd \<and>
              sub_measurements effs = timed @ SM_RecordError m t ''subscriber''
          | Some (NoSubscriptionMatched t') \<Rightarrow>
              t' = t \<and> effs = sub_measures (SM_RecordError m t ''subscription'')
          | Some (DeserializePayload t' e) \<Rightarrow>
              t' = t \<and> sub_events effs = [] \<and>
              sub_measurements effs = SM_RecordError m t ''deserialize''
          | Some (ResolveVinculumTopic t' e) \<Rightarrow>
              t' = t \<and> effs = sub_measures (SM_RecordError m t ''vinculum_topic'')))"

lemma deliver_balanced:
  assumes "s_subscriber s = Some ev"
  shows "\<exists>effs res. deliver rt s ctx remote msg topic v flds = (effs, Ret res)
    \<and> balanced rt s msg effs res"
  using assms
  by (cases "ev (span_ctx rt (s_tracerProvider s) ctx (''process '' @ topic)) topic v flds")
     (simp_all add: deliver_def balanced_def Let_def one_span_def)

lemma HandleMessage_balanced:
  assumes "wired s"
  shows "\<exists>effs res. HandleMessage rt s ctx msg = (effs, Ret res) \<and> balanced rt s msg effs res"
proof -
  obtain wfm ev where wfm: "s_wireFormat s = Some wfm" and ev: "s_subscriber s = Some ev"
    using assms by (auto simp: wired_def)
  show ?thesis
    using assms wfm
  proof (cases rule: HandleMessage_cases [of s wfm msg rt ctx])
    case (Undecodable sub e)
    then show ?thesis
      by (simp add: balanced_def Let_def decodeFailed_effects [OF assms] split: option.split)
  next
    case (Delivered sub v flds topic)
    then show ?thesis using deliver_balanced [OF ev] by metis
  qed (simp_all add: balanced_def Let_def)
qed

lemma sb_logger_foldl:
  "sb_logger b \<noteq> None \<Longrightarrow> sb_logger (foldl (set_subscriber_option byName) b opts) \<noteq> None"
proof (induction opts arbitrary: b)
  case (Cons opt opts)
  then show ?case by (cases opt) simp_all
qed simp

lemma built_from_options_wired:
  "BuildSubscriber auto (foldl (set_subscriber_option byName) NewSubscriber opts) = Inr s \<Longrightarrow> wired s"
  by (erule built_wired, rule sb_logger_foldl) (simp add: NewSubscriber_def)

text \<open>C14: a subscriber that the builder accepts never panics on a message, whatever options it
  was given (nil logger, nil wire format, nil hook, no metrics) and whatever the message
  carries (nil payload, nil properties), and its books always balance: at most one event,
  with one span that is started once, marked with the error of the bus exactly where there is
  one, and ended last; one error of the right type for every error it returns, one received
  message for every success.\<close>

theorem built_subscriber_balanced:
  assumes "BuildSubscriber auto (foldl (set_subscriber_option byName) NewSubscriber opts) = Inr s"
  shows "\<exists>effs res. HandleMessage rt s ctx msg = (effs, Ret res) \<and> balanced rt s msg effs res"
  using built_from_options_wired [OF assms] by (rule HandleMessage_balanced)

section \<open>The builder's result\<close>

abbreviation given_subscriptions ::
  "('c, 'm, 'e) subscriber_option list \<Rightarrow> ('m, 'e) topic_subscription list" where
  "given_subscriptions opts \<equiv>
     concat (map (\<lambda>opt. case opt of WithSubscription sub \<Rightarrow> [sub] | _ \<Rightarrow> []) opts)"

abbreviation given_group :: "('c, 'm, 'e) subscriber_option list \<Rightarrow> string" where
  "given_group opts \<equiv>
     last ('''' # concat (map (\<lambda>opt. case opt of WithSharedGroup g \<Rightarrow> [g] | _ \<Rightarrow> []) opts))"

abbreviation given_subscriber ::
  "('c, 'm, 'e) subscriber_option list \<Rightarrow> ('c, 'm, 'e) event_func option" where
  "given_subscriber opts \<equiv>
     last (None # concat (map (\<lambda>opt. case opt of WithSubscriber ev \<Rightarrow> [ev] | _ \<Rightarrow> []) opts))"

lemma sb_subscriptions_foldl:
  "sb_subscriptions (foldl (set_subscriber_option byName) b opts) =
     sb_subscriptions b @ map completeSubscription (given_subscriptions opts)"
proof (induction opts arbitrary: b)
  case (Cons opt opts)
  then show ?case by (cases opt) simp_all
qed simp

lemma sb_sharedGroup_foldl:
  "sb_sharedGroup (foldl (set_subscriber_option byName) b opts) =
     last (sb_sharedGroup b # concat (map (\<lambda>opt. case opt of WithSharedGroup g \<Rightarrow> [g] | _ \<Rightarrow> []) opts))"
proof (induction opts arbitrary: b)
  case (Cons opt opts)
  then show ?case by (cases opt) simp_all
qed simp

lemma sb_subscriber_foldl:
  "sb_subscriber (foldl (set_subscriber_option byName) b opts) =
     last (sb_subscriber b # concat (map (\<lambda>opt. case opt of WithSubscriber g \<Rightarrow> [g] | _ \<Rightarrow> []) opts))"
proof (induction opts arbitrary: b)
  case (Cons opt opts)
  then show ?case by (cases opt) simp_all
qed simp

lemma MQTTPattern_complete [simp]: "MQTTPattern (completeSubscription sub) = MQTTPattern sub"
  by (simp add: completeSubscription_def)

text \<open>C39: building fails exactly for a missing bus subscriber, checked first, or a missing
  subscription. Otherwise the broker is asked for one filter per subscription, in declaration
  order, with the requested QoS: the given broker topic, or the pattern without its field
  names where none was given, under the shared-group prefix where a group is set; and the
  patterns used for routing are the declared ones, which never carry that prefix.\<close>

theorem subscriber_builder_result:
  "case BuildSubscriber auto (foldl (set_subscriber_option byName) NewSubscriber opts) of
     Inl SubscriberRequired \<Rightarrow> given_subscriber opts = None
   | Inl SubscriptionRequired \<Rightarrow> given_subscriber opts \<noteq> None \<and> given_subscriptions opts = []
   | Inr s \<Rightarrow>
       s_subscriber s = given_subscriber opts \<and> s_subscriber s \<noteq> None
       \<and> given_subscriptions opts \<noteq> []
       \<and> MQTTPatterns s = map MQTTPattern (given_subscriptions opts)
       \<and> BrokerSubscriptions s = map (\<lambda>sub.
           \<lparr>so_Topic = (if given_group opts = '''' then '''' else ''$share/'' @ given_group opts @ ''/'')
              @ (if BrokerTopic sub = '''' then stripFieldNames (MQTTPattern sub) else BrokerTopic sub),
            so_QoS = SubQoS sub\<rparr>) (given_subscriptions opts)"
  by (auto simp: BuildSubscriber_def Let_def sb_subscriber_foldl sb_subscriptions_foldl
      sb_sharedGroup_foldl NewSubscriber_def MQTTPatterns_def BrokerSubscriptions_def
      completeSubscription_def)

section \<open>Witnesses\<close>

definition example_subscription :: "(byte, string) topic_subscription" where
  "example_subscription = \<lparr>MQTTPattern = ''+id'', BrokerTopic = ''+'', SubQoS = 1,
     VinculumTopicFunc = Some (\<lambda>topic flds v. Inr (gm_index '''' flds ''id'' @ ''/in''))\<rparr>"

definition example_sink :: "(string, byte, string) event_func" where
  "example_sink = (\<lambda>ctx topic v flds. if v = Some 9 then Some ''full'' else None)"

definition example_options :: "(string, byte, string) subscriber_option list" where
  "example_options = [WithSubscription (example_subscription\<lparr>MQTTPattern := ''other''\<rparr>),
     WithSubscription example_subscription, WithSubscriber (Some example_sink),
     WithDecodeErrorHook (Some ''hook''), WithSubLogger None, WithHandleRetained False]"

definition example_subscriber :: "(string, byte, string) subscriber" where
  "example_subscriber = \<lparr>
     s_subscriptions = [example_subscription\<lparr>MQTTPattern := ''other''\<rparr>, example_subscription],
     s_subscriber = Some example_sink, s_handleRetained = False, s_sharedGroup = '''',
     s_wireFormat = Some example_wire, s_onDecodeError = Some ''hook'', s_logger = Some ''nop'',
     s_metrics = None, s_tracerProvider = None\<rparr>"

definition example_message :: publish where
  "example_message = \<lparr>pub_Topic = ''dev'', pub_QoS = 0, pub_Retain = False,
     pub_Payload = Some [9],
     pub_Properties = Some \<lparr>User = [user ''id'' ''x'', user ''traceparent'' ''00'']\<rparr>\<rparr>"

lemma example_subscriber_built:
  "BuildSubscriber example_wire (foldl (set_subscriber_option (\<lambda>_. None)) NewSubscriber example_options)
     = Inr example_subscriber"
  by (simp add: BuildSubscriber_def example_options_def NewSubscriber_def example_subscriber_def
      example_subscription_def completeSubscription_def NewSubscriberMetrics_def)

lemma example_subscriber_wired: "wired example_subscriber"
  by (simp add: wired_def example_subscriber_def)

text \<open>The same subscriber without a topic function: the MQTT topic is used as it is.\<close>

definition example_verbatim :: "(string, byte, string) subscriber" where
  "example_verbatim = example_subscriber\<lparr>s_subscriptions :=
     [example_subscription\<lparr>VinculumTopicFunc := None\<rparr>]\<rparr>"

lemma HandleMessage_delivers_witness:
  "(\<exists>c dest flds. dest = ''dev/in''
    \<and> sub_events (effects (HandleMessage example_runtime example_subscriber ''ctx'' example_message))
        = [(c, dest, Some 9, flds)]
    \<and> gm_get flds ''id'' = Some ''dev''
    \<and> outcome (HandleMessage example_runtime example_subscriber ''ctx'' example_message)
        = Ret (Some (Downstream ''full'')))
   \<and> (\<exists>c flds. sub_events (effects (HandleMessage example_runtime example_verbatim ''ctx''
          example_message)) = [(c, ''dev'', Some 9, flds)])"
proof -
  have "\<exists>c dest flds. dest = (if ''dev'' = '''' then pub_Topic example_message else ''dev'')
    \<and> sub_events (effects (HandleMessage example_runtime example_verbatim ''ctx'' example_message))
        = [(c, dest, Some 9, flds)]
    \<and> gm_get flds = event_fields example_runtime (example_subscription\<lparr>VinculumTopicFunc := None\<rparr>)
        example_message
    \<and> outcome (HandleMessage example_runtime example_verbatim ''ctx'' example_message)
        = Ret (map_option Downstream (example_sink c dest (Some 9) flds))"
    by (rule HandleMessage_delivers [where wfm = example_wire and pre = "[]" and post = "[]"
          and sub = "example_subscription\<lparr>VinculumTopicFunc := None\<rparr>",
          OF _ _ _ _ _ _ _ _ example_ranges_ok])
       (use example_subscriber_wired in \<open>simp_all add: example_verbatim_def wired_def
         example_subscriber_def example_subscription_def example_message_def example_wire_def
         decoded_def\<close>)
  then have nil: "\<exists>c flds. sub_events (effects (HandleMessage example_runtime example_verbatim
      ''ctx'' example_message)) = [(c, ''dev'', Some 9, flds)]"
    by auto
  let ?f = "\<lambda>topic flds v. Inr (gm_index '''' flds ''id'' @ ''/in'') :: string + string"
  have id: "event_fields example_runtime example_subscription example_message ''id'' = Some ''dev''"
    by (simp add: event_fields_def example_message_def example_subscription_def)
  then have f: "\<forall>g. gm_get g = event_fields example_runtime example_subscription example_message
      \<longrightarrow> ?f (pub_Topic example_message) g (Some 9 :: byte any) = Inr ''dev/in''"
    by (simp add: gm_index_def)
  have "\<exists>c dest flds. dest = (if ''dev/in'' = '''' then pub_Topic example_message else ''dev/in'')
    \<and> sub_events (effects (HandleMessage example_runtime example_subscriber ''ctx'' example_message))
        = [(c, dest, Some 9, flds)]
    \<and> gm_get flds = event_fields example_runtime example_subscription example_message
    \<and> outcome (HandleMessage example_runtime example_subscriber ''ctx'' example_message)
        = Ret (map_option Downstream (example_sink c dest (Some 9) flds))"
    by (rule HandleMessage_delivers [where wfm = example_wire and sub = example_subscription
          and pre = "[example_subscription\<lparr>MQTTPattern := ''other''\<rparr>]" and post = "[]",
          OF example_subscriber_wired _ _ _ _ _ _ _ example_ranges_ok])
       (use f in \<open>simp_all add: example_subscriber_def example_subscription_def
         example_message_def example_wire_def decoded_def\<close>)
  then show ?thesis using id nil by (auto simp: example_sink_def)
qed

lemma HandleMessage_decode_failure_witness:
  "outcome (HandleMessage example_runtime example_subscriber ''ctx''
      (example_message\<lparr>pub_Payload := Some [1, 2]\<rparr>))
    = Ret (Some (DeserializePayload ''dev'' ''not one byte''))"
  using HandleMessage_decode_failure [where wfm = example_wire and sub = example_subscription
      and e = "''not one byte''" and rt = example_runtime and ctx = "''ctx''"
      and msg = "example_message\<lparr>pub_Payload := Some [1, 2]\<rparr>", OF example_subscriber_wired]
  by (simp add: example_subscriber_def example_message_def example_wire_def decoded_def
      findSubscription_def example_subscription_def)

lemma HandleMessage_ignores_iff_witness:
  "HandleMessage example_runtime example_subscriber ''ctx'' (example_message\<lparr>pub_Retain := True\<rparr>)
     = ([], Ret None)"
  unfolding HandleMessage_ignores_iff [OF example_subscriber_wired]
  by (simp add: example_subscriber_def)

lemma built_subscriber_balanced_witness:
  "\<exists>effs res. HandleMessage example_runtime example_subscriber ''ctx'' example_message = (effs, Ret res)
    \<and> balanced example_runtime example_subscriber example_message effs res"
  by (rule built_subscriber_balanced [OF example_subscriber_built])

end
