(* ===== verification/Router.thy ===== *)
theory Router
  imports Runtime
begin

text \<open>
  The router of the client (src/client/router.go): it routes an inbound packet to recipients,
  each once, rather than to topic filters. This theory has its operations on lists of
  entries; \<open>Slices\<close> has the same operations on Go's slices and arrays. The contract of both,
  what the list of recipients is after an operation, is the locale \<open>recipient_registry\<close>.
\<close>

section \<open>Data\<close>

record packet_properties =
  pk_TopicAlias :: "uint16 option"
  pk_User :: user_properties

record packet =
  pk_Topic :: string
  pk_QoS :: byte
  pk_Retain :: bool
  pk_Payload :: payload
  pk_Properties :: "packet_properties option"

type_synonym 'f message_handler = "publish \<Rightarrow> ('f, unit) comp"

record 'f router_entry =
  patterns :: "string list"
  handler :: "'f message_handler"

text \<open>The lines written to the debug logger, which is an interface and may be nil.\<close>

datatype log_line =
    RegisteringHandler string
  | UnregisteringHandler string
  | RegisteringAlias uint16 string
  | DroppingPublish
  | RoutingMessage string

type_synonym 'f debug_logger = "(log_line \<Rightarrow> 'f list) option"

record 'f router =
  entries :: "'f router_entry list"
  aliases :: "(uint16, string) gomap"
  debug :: "'f debug_logger"

definition println :: "'f debug_logger \<Rightarrow> log_line \<Rightarrow> ('f, unit) comp" where
  "println l line = (case l of None \<Rightarrow> panic NilDereference | Some f \<Rightarrow> emit (f line))"

section \<open>Operations\<close>

fun matches_loop :: "'c runtime \<Rightarrow> string \<Rightarrow> string list \<Rightarrow> bool" where
  "matches_loop rt topic [] = False"
| "matches_loop rt topic (p # ps) = (if Matches rt p topic then True else matches_loop rt topic ps)"

definition entry_matches :: "'c runtime \<Rightarrow> 'f router_entry \<Rightarrow> string \<Rightarrow> bool" where
  "entry_matches rt e topic = matches_loop rt topic (patterns e)"

text \<open>A new router: no entries, a fresh alias map, and a logger that writes nothing.\<close>

definition newSubscriberRouter :: "'f router" where
  "newSubscriberRouter = \<lparr>entries = [], aliases = Some fmempty, debug = Some (\<lambda>_. [])\<rparr>"

definition AddRecipient :: "'f router \<Rightarrow> string list \<Rightarrow> 'f message_handler \<Rightarrow> 'f router" where
  "AddRecipient r ps h = r\<lparr>entries := entries r @ [\<lparr>patterns = ps, handler = h\<rparr>]\<rparr>"

text \<open>The debug logger, read for one use.\<close>

definition router_logger :: "'f router \<Rightarrow> 'f debug_logger" where
  "router_logger r = debug r"

definition RegisterHandler ::
  "'f router \<Rightarrow> string \<Rightarrow> 'f message_handler \<Rightarrow> ('f, 'f router) comp" where
  "RegisterHandler r topic h =
     seq (println (router_logger r) (RegisteringHandler topic)) (\<lambda>_. ret (AddRecipient r [topic] h))"

definition kept_entries :: "string \<Rightarrow> 'f router_entry list \<Rightarrow> 'f router_entry list" where
  "kept_entries topic es =
     foldl (\<lambda>kept e. if length (patterns e) = 1 \<and> patterns e ! 0 = topic then kept
                     else kept @ [e]) [] es"

definition drop_handler :: "'f router \<Rightarrow> string \<Rightarrow> 'f router" where
  "drop_handler r topic = r\<lparr>entries := kept_entries topic (entries r)\<rparr>"

definition UnregisterHandler :: "'f router \<Rightarrow> string \<Rightarrow> ('f, 'f router) comp" where
  "UnregisterHandler r topic =
     seq (println (router_logger r) (UnregisteringHandler topic))
       (\<lambda>_. ret (drop_handler r topic))"

definition resolveTopic ::
  "'f router \<Rightarrow> packet \<Rightarrow> 'f debug_logger \<Rightarrow> ('f, 'f router \<times> string) comp" where
  "resolveTopic r pb dbg =
     (case pk_Properties pb of
        None \<Rightarrow> panic NilDereference
      | Some ps \<Rightarrow>
          (case pk_TopicAlias ps of
             None \<Rightarrow> ret (r, pk_Topic pb)
           | Some alias \<Rightarrow>
               if pk_Topic pb \<noteq> ''''
               then seq (println dbg (RegisteringAlias alias (pk_Topic pb))) (\<lambda>_.
                      case gm_set (aliases r) alias (pk_Topic pb) of
                        Panic q \<Rightarrow> panic q
                      | Ret m \<Rightarrow> ret (r\<lparr>aliases := m\<rparr>, pk_Topic pb))
               else ret (r, gm_index '''' (aliases r) alias)))"

text \<open>The dispatch loop over the snapshot of the entries.\<close>

fun dispatch_loop ::
  "'c runtime \<Rightarrow> publish \<Rightarrow> 'f router_entry list \<Rightarrow> ('f, unit) comp" where
  "dispatch_loop rt m [] = ret ()"
| "dispatch_loop rt m (e # es) =
     (if entry_matches rt e (pub_Topic m) then seq (handler e m) (\<lambda>_. dispatch_loop rt m es)
      else dispatch_loop rt m es)"

definition normalized :: "packet \<Rightarrow> packet" where
  "normalized pb =
     (if pk_Properties pb = None
      then pb\<lparr>pk_Properties := Some \<lparr>pk_TopicAlias = None, pk_User = []\<rparr>\<rparr> else pb)"

text \<open>
  \<open>fromPacket\<close> is paho's conversion of a decoded packet into a message, which dereferences the
  packet's properties.
\<close>

definition Route ::
  "'c runtime \<Rightarrow> (packet \<Rightarrow> publish outcome) \<Rightarrow> 'f router \<Rightarrow> packet \<Rightarrow> ('f, 'f router) comp" where
  "Route rt fromPacket r pb =
     (let pb = normalized pb;
          es = entries r;
          dbg = debug r
      in case fromPacket pb of
           Panic q \<Rightarrow> panic q
         | Ret m \<Rightarrow>
             seq (resolveTopic r pb dbg) (\<lambda>(r, topic).
               let m = m\<lparr>pub_Topic := topic\<rparr>
               in if topic = '''' then seq (println dbg DroppingPublish) (\<lambda>_. ret r)
                  else seq (println dbg (RoutingMessage topic)) (\<lambda>_.
                         seq (dispatch_loop rt m es) (\<lambda>_. ret r))))"

definition resetAliases :: "'f router \<Rightarrow> 'f router" where
  "resetAliases r = r\<lparr>aliases := gm_clear (aliases r)\<rparr>"

definition SetDebugLogger :: "'f router \<Rightarrow> 'f debug_logger \<Rightarrow> 'f router" where
  "SetDebugLogger r l = r\<lparr>debug := l\<rparr>"

section \<open>Paho's conversion\<close>

text \<open>
  What paho documents of \<open>PublishFromPacketPublish\<close>: it copies the fields, and needs the
  properties to be there.
\<close>

definition converts :: "(packet \<Rightarrow> publish outcome) \<Rightarrow> bool" where
  "converts fromPacket \<longleftrightarrow>
     (\<forall>pb. fromPacket pb =
        (case pk_Properties pb of
           None \<Rightarrow> Panic NilDereference
         | Some ps \<Rightarrow> Ret \<lparr>pub_Topic = pk_Topic pb, pub_QoS = pk_QoS pb, pub_Retain = pk_Retain pb,
             pub_Payload = pk_Payload pb, pub_Properties = Some \<lparr>User = pk_User ps\<rparr>\<rparr>))"

definition example_conversion :: "packet \<Rightarrow> publish outcome" where
  "example_conversion pb =
     (case pk_Properties pb of
        None \<Rightarrow> Panic NilDereference
      | Some ps \<Rightarrow> Ret \<lparr>pub_Topic = pk_Topic pb, pub_QoS = pk_QoS pb, pub_Retain = pk_Retain pb,
          pub_Payload = pk_Payload pb, pub_Properties = Some \<lparr>User = pk_User ps\<rparr>\<rparr>)"

lemma example_converts: "converts example_conversion"
  by (simp add: converts_def example_conversion_def)

text \<open>The message a packet becomes, on the topic it is resolved to.\<close>

definition packet_user :: "packet \<Rightarrow> user_properties" where
  "packet_user pb = (case pk_Properties pb of None \<Rightarrow> [] | Some ps \<Rightarrow> pk_User ps)"

definition message_of :: "packet \<Rightarrow> string \<Rightarrow> publish" where
  "message_of pb topic =
     \<lparr>pub_Topic = topic, pub_QoS = pk_QoS pb, pub_Retain = pk_Retain pb,
      pub_Payload = pk_Payload pb, pub_Properties = Some \<lparr>User = packet_user pb\<rparr>\<rparr>"

lemma converts_normalized:
  "converts fromPacket \<Longrightarrow>
     \<exists>m. fromPacket (normalized pb) = Ret m \<and> m\<lparr>pub_Topic := t\<rparr> = message_of pb t"
  by (auto simp: converts_def normalized_def message_of_def packet_user_def split: option.splits)

section \<open>Matching\<close>

interpretation pattern: first_match
  "matches_loop rt topic" "\<lambda>p. Matches rt p topic" "\<lambda>_. True" False
  for rt topic
  by unfold_locales simp_all

lemma entry_matches_iff: "entry_matches rt e topic \<longleftrightarrow> (\<exists>p \<in> set (patterns e). Matches rt p topic)"
  unfolding entry_matches_def using pattern.run_hit_iff [of rt topic "patterns e"] by simp

section \<open>Dispatch\<close>

lemma dispatch_loop_run:
  "dispatch_loop rt m es =
     run_all (map (\<lambda>e. handler e m) (filter (\<lambda>e. entry_matches rt e (pub_Topic m)) es))"
  by (induction es) simp_all

lemma kept_entries_filter: "kept_entries topic es = filter (\<lambda>e. patterns e \<noteq> [topic]) es"
proof -
  have single: "length ps = Suc 0 \<and> ps ! 0 = topic \<longleftrightarrow> ps = [topic]" for ps
    by (cases ps) auto
  have "foldl (\<lambda>kept e. if patterns e = [topic] then kept else kept @ [e]) acc es
      = acc @ filter (\<lambda>e. patterns e \<noteq> [topic]) es" for acc
    by (induction es arbitrary: acc) auto
  then show ?thesis by (simp add: kept_entries_def single)
qed

lemma println_Some [simp]: "println (Some f) line = (f line, Ret ())"
  by (simp add: println_def emit_def)

section \<open>The contract of a registry of recipients\<close>

locale recipient_registry =
  fixes recipients :: "'r \<Rightarrow> (string list \<times> 'h) list"
    and add :: "'r \<Rightarrow> string list \<Rightarrow> 'h \<Rightarrow> 'r"
    and remove :: "'r \<Rightarrow> string \<Rightarrow> 'r"
    and ok :: "'r \<Rightarrow> bool"
  assumes recipients_add: "ok r \<Longrightarrow> recipients (add r ps h) = recipients r @ [(ps, h)]"
    and recipients_remove:
      "ok r \<Longrightarrow> recipients (remove r t) = filter (\<lambda>(ps, h). ps \<noteq> [t]) (recipients r)"
    and ok_add: "ok r \<Longrightarrow> ok (add r ps h)"
    and ok_remove: "ok r \<Longrightarrow> ok (remove r t)"
begin

lemmas registry_simps = recipients_add recipients_remove ok_add ok_remove

lemma remove_idem: "ok r \<Longrightarrow> recipients (remove (remove r t) t) = recipients (remove r t)"
  by (simp add: registry_simps)

lemma remove_add_fresh:
  assumes "ok r" "\<forall>(ps, h) \<in> set (recipients r). ps \<noteq> [t]"
  shows "recipients (remove (add r [t] h) t) = recipients r"
  using assms by (auto simp: registry_simps filter_id_conv)

lemma remove_add_other: "ok r \<Longrightarrow> ps \<noteq> [t] \<Longrightarrow>
    recipients (remove (add r ps h) t) = recipients (add (remove r t) ps h)"
  by (simp add: registry_simps)

lemma survives:
  "ok r \<Longrightarrow> (ps, h) \<in> set (recipients r) \<Longrightarrow> length ps \<noteq> 1 \<Longrightarrow>
     (ps, h) \<in> set (recipients (remove r t)) \<and> (ps, h) \<in> set (recipients (add r qs g))"
  by (auto simp: registry_simps)

end

definition entry_pair :: "'f router_entry \<Rightarrow> string list \<times> 'f message_handler" where
  "entry_pair e = (patterns e, handler e)"

interpretation routing: recipient_registry
  "\<lambda>r. map entry_pair (entries r)" AddRecipient drop_handler "\<lambda>_. True"
  by unfold_locales
     (auto simp: AddRecipient_def drop_handler_def kept_entries_filter entry_pair_def filter_map
       comp_def)

section \<open>One packet\<close>

definition well_formed :: "'f router \<Rightarrow> bool" where
  "well_formed r \<longleftrightarrow> aliases r \<noteq> None \<and> debug r \<noteq> None"

text \<open>A recipient whose handler returns, whatever the message.\<close>

definition returns :: "'f router_entry \<Rightarrow> bool" where
  "returns e \<longleftrightarrow> (\<forall>m. outcome (handler e m) = Ret ())"

definition alias_of :: "packet \<Rightarrow> uint16 option" where
  "alias_of pb = Option.bind (pk_Properties pb) pk_TopicAlias"

definition resolved :: "'f router \<Rightarrow> packet \<Rightarrow> 'f router \<times> string" where
  "resolved r pb =
     (case alias_of pb of
        None \<Rightarrow> (r, pk_Topic pb)
      | Some a \<Rightarrow>
          if pk_Topic pb \<noteq> ''''
          then (r\<lparr>aliases := Some (fmupd a (pk_Topic pb) (the (aliases r)))\<rparr>, pk_Topic pb)
          else (r, gm_index '''' (aliases r) a))"

lemma resolveTopic_resolved:
  assumes "well_formed r" "debug r = Some d"
  shows "\<exists>fs. resolveTopic r (normalized pb) (debug r) = (fs, Ret (resolved r pb))
    \<and> (d = (\<lambda>_. []) \<longrightarrow> fs = [])"
  using assms
  by (auto simp: well_formed_def resolveTopic_def normalized_def resolved_def alias_of_def ret_def
      split: option.splits)

text \<open>
  The whole of \<open>Route\<close> on a well-formed router: the messages of the debug logger aside, its
  effects are those of the dispatch on the resolved topic.
\<close>

lemma Route_eq:
  assumes "converts fromPacket" "well_formed r" "resolved r pb = (r', topic)"
  shows "\<exists>fs. Route rt fromPacket r pb =
      seq (emit fs) (\<lambda>_. if topic = '''' then ret r'
        else seq (dispatch_loop rt (message_of pb topic) (entries r)) (\<lambda>_. ret r'))
    \<and> (debug r = Some (\<lambda>_. []) \<longrightarrow> fs = [])"
proof -
  obtain d where d: "debug r = Some d"
    using assms(2) by (auto simp: well_formed_def)
  obtain m where m: "fromPacket (normalized pb) = Ret m" "m\<lparr>pub_Topic := topic\<rparr> = message_of pb topic"
    using converts_normalized [OF assms(1)] by blast
  obtain fs where fs: "resolveTopic r (normalized pb) (debug r) = (fs, Ret (r', topic))"
    "d = (\<lambda>_. []) \<longrightarrow> fs = []"
    using resolveTopic_resolved [OF assms(2) d, of pb] assms(3) by auto
  show ?thesis
  proof (cases "topic = ''''")
    case True
    with m fs d show ?thesis
      by (intro exI [of _ "fs @ d DroppingPublish"]) (auto simp: Route_def Let_def emit_def)
  next
    case False
    with m fs d show ?thesis
      by (intro exI [of _ "fs @ d (RoutingMessage topic)"]) (auto simp: Route_def Let_def emit_def)
  qed
qed

lemma dispatch_returns:
  assumes "\<forall>e \<in> set es. returns e"
  shows "dispatch_loop rt m es =
    (concat (map (\<lambda>e. effects (handler e m)) (filter (\<lambda>e. entry_matches rt e (pub_Topic m)) es)), Ret ())"
proof -
  have "dispatch_loop rt m es = (concat (map effects
      (map (\<lambda>e. handler e m) (filter (\<lambda>e. entry_matches rt e (pub_Topic m)) es))), Ret ())"
    unfolding dispatch_loop_run using assms by (intro run_all_Ret) (auto simp: returns_def)
  then show ?thesis by (simp add: comp_def)
qed

lemma resolved_frame [simp]:
  "entries (fst (resolved r pb)) = entries r" "debug (fst (resolved r pb)) = debug r"
  "well_formed r \<Longrightarrow> well_formed (fst (resolved r pb))"
  by (auto simp: resolved_def well_formed_def split: option.splits)

lemma resetAliases_frame [simp]:
  "entries (resetAliases r) = entries r" "debug (resetAliases r) = debug r"
  "well_formed (resetAliases r) = well_formed r" "gm_get (aliases (resetAliases r)) = Map.empty"
  by (simp_all add: resetAliases_def well_formed_def gm_clear_def [symmetric])
     (simp add: gm_clear_def)

lemma message_of_simps [simp]:
  "pub_Topic (message_of pb t) = t" "pub_Retain (message_of pb t) = pk_Retain pb"
  "pub_Payload (message_of pb t) = pk_Payload pb" "pub_QoS (message_of pb t) = pk_QoS pb"
  by (simp_all add: message_of_def)

lemma Route_returns:
  assumes "converts fromPacket" "well_formed r" "\<forall>e \<in> set (entries r). returns e"
    and "resolved r pb = (r', topic)"
  shows "\<exists>fs. Route rt fromPacket r pb =
      (fs @ (if topic = '''' then [] else
         concat (map (\<lambda>e. effects (handler e (message_of pb topic)))
           (filter (\<lambda>e. entry_matches rt e topic) (entries r)))), Ret r')
    \<and> (debug r = Some (\<lambda>_. []) \<longrightarrow> fs = [])"
proof -
  obtain fs where fs: "Route rt fromPacket r pb =
      seq (emit fs) (\<lambda>_. if topic = '''' then ret r'
        else seq (dispatch_loop rt (message_of pb topic) (entries r)) (\<lambda>_. ret r'))"
    "debug r = Some (\<lambda>_. []) \<longrightarrow> fs = []"
    using Route_eq [OF assms(1,2,4), of rt] by blast
  then show ?thesis
    by (intro exI [of _ fs]) (auto simp: dispatch_returns [OF assms(3)])
qed

section \<open>A connection's packets\<close>

text \<open>
  What the router sees over its lifetime: packets, and the callbacks of a new or a lost
  connection, both of which reset the aliases.
\<close>

datatype link_event = Inbound packet | Reset

fun link_step ::
  "'c runtime \<Rightarrow> (packet \<Rightarrow> publish outcome) \<Rightarrow> 'f router \<Rightarrow> link_event \<Rightarrow> 'f router" where
  "link_step rt fromPacket r (Inbound pb) =
     (case outcome (Route rt fromPacket r pb) of Ret r' \<Rightarrow> r' | Panic _ \<Rightarrow> r)"
| "link_step rt fromPacket r Reset = resetAliases r"

text \<open>
  The specification, over the history with the latest event first: an alias stands for the
  topic it was last announced with since the last reset.
\<close>

fun announced :: "link_event list \<Rightarrow> uint16 \<Rightarrow> string option" where
  "announced [] a = None"
| "announced (Reset # evs) a = None"
| "announced (Inbound pb # evs) a =
     (if alias_of pb = Some a \<and> pk_Topic pb \<noteq> '''' then Some (pk_Topic pb) else announced evs a)"

lemma announced_nonempty: "announced evs a = Some t \<Longrightarrow> t \<noteq> ''''"
  by (induction evs a rule: announced.induct) (auto split: if_splits)

lemma link_step_Inbound:
  assumes "converts fromPacket" "well_formed r" "\<forall>e \<in> set (entries r). returns e"
  shows "link_step rt fromPacket r (Inbound pb) = fst (resolved r pb)"
  using Route_returns [OF assms, of pb "fst (resolved r pb)" "snd (resolved r pb)" rt] by auto

definition link_run ::
  "'c runtime \<Rightarrow> (packet \<Rightarrow> publish outcome) \<Rightarrow> 'f router \<Rightarrow> link_event list \<Rightarrow> 'f router" where
  "link_run rt fromPacket r evs = foldl (link_step rt fromPacket) r evs"

lemma link_run_simps [simp]:
  "link_run rt fromPacket r [] = r"
  "link_run rt fromPacket r (evs @ [ev]) = link_step rt fromPacket (link_run rt fromPacket r evs) ev"
  by (simp_all add: link_run_def)

lemma resolved_aliases:
  assumes "well_formed r" "gm_get (aliases r) = announced evs"
  shows "gm_get (aliases (fst (resolved r pb))) = announced (Inbound pb # evs)"
proof (rule ext)
  fix a
  obtain f where f: "aliases r = Some f"
    using assms(1) by (auto simp: well_formed_def)
  have "fmlookup f x = announced evs x" for x
    using assms(2) by (simp add: f fun_eq_iff)
  then show "gm_get (aliases (fst (resolved r pb))) a = announced (Inbound pb # evs) a"
    by (cases "alias_of pb") (auto simp: resolved_def f)
qed

lemma link_run_state:
  assumes "converts fromPacket" "well_formed r" "\<forall>e \<in> set (entries r). returns e"
    and "gm_get (aliases r) = Map.empty"
  shows "entries (link_run rt fromPacket r evs) = entries r
    \<and> debug (link_run rt fromPacket r evs) = debug r
    \<and> well_formed (link_run rt fromPacket r evs)
    \<and> gm_get (aliases (link_run rt fromPacket r evs)) = announced (rev evs)"
proof (induction evs rule: rev_induct)
  case Nil
  then show ?case using assms(2,4) by (simp add: fun_eq_iff)
next
  case (snoc ev evs)
  let ?r = "link_run rt fromPacket r evs"
  show ?case
  proof (cases ev)
    case (Inbound pb)
    have "link_step rt fromPacket ?r ev = fst (resolved ?r pb)"
      using snoc Inbound assms(3) link_step_Inbound [OF assms(1), of ?r] by simp
    then show ?thesis
      using snoc Inbound resolved_aliases [of ?r "rev evs" pb] by simp
  next
    case Reset
    then show ?thesis using snoc by (simp add: fun_eq_iff)
  qed
qed

section \<open>Properties\<close>

text \<open>C20: one inbound packet is one delivery per recipient. On any well-formed router whose
  handlers return, routing a packet runs the handler of every recipient with a matching
  pattern exactly once, in registration order, on the message with its resolved topic, and no
  other handler; a packet without a topic reaches nobody. It never panics, whether or not the
  packet has properties, and it leaves the recipients as they are.\<close>

theorem Route_once_per_recipient:
  assumes "converts fromPacket" and "well_formed r" and "\<forall>e \<in> set (entries r). returns e"
    and "debug r = Some (\<lambda>_. [])" and "resolved r pb = (r', topic)"
  shows "Route rt fromPacket r pb =
      (if topic = '''' then []
       else concat (map (\<lambda>e. effects (handler e (message_of pb topic)))
              (filter (\<lambda>e. \<exists>p \<in> set (patterns e). Matches rt p topic) (entries r))), Ret r')
    \<and> entries r' = entries r \<and> well_formed r'"
proof -
  have "r' = fst (resolved r pb)" using assms(5) by simp
  then show ?thesis
    using Route_returns [OF assms(1-3,5), of rt] assms(2,4) by (simp add: entry_matches_iff)
qed

text \<open>C21: topic aliases belong to one connection. After any history of packets and connection
  changes, a packet that carries only an alias is dispatched on the topic the alias was last
  announced with since the last connection change, and is dropped when there is none: no
  mapping of an earlier connection ever answers.\<close>

theorem alias_scoped_to_connection:
  assumes "converts fromPacket" and "\<forall>e \<in> set es. returns e"
    and "alias_of pb = Some a" and "pk_Topic pb = ''''"
  shows "effects (Route rt fromPacket
      (link_run rt fromPacket (newSubscriberRouter\<lparr>entries := es\<rparr>) evs) pb) =
    (case announced (rev evs) a of
       None \<Rightarrow> []
     | Some t \<Rightarrow> concat (map (\<lambda>e. effects (handler e (message_of pb t)))
                   (filter (\<lambda>e. \<exists>p \<in> set (patterns e). Matches rt p t) es)))"
proof -
  let ?start = "newSubscriberRouter\<lparr>entries := es\<rparr>"
  let ?r = "link_run rt fromPacket ?start evs"
  have new: "well_formed ?start" "gm_get (aliases ?start) = Map.empty" "entries ?start = es"
      "debug ?start = Some (\<lambda>_. [])"
    by (simp_all add: newSubscriberRouter_def well_formed_def)
  then have run: "entries ?r = es" "debug ?r = Some (\<lambda>_. [])" "well_formed ?r"
      "gm_get (aliases ?r) = announced (rev evs)"
    using link_run_state [OF assms(1) new(1) _ new(2), of rt evs] assms(2) by auto
  have res: "resolved ?r pb =
      (?r, case announced (rev evs) a of None \<Rightarrow> '''' | Some t \<Rightarrow> t)"
    using assms(3,4) run(4) by (simp add: resolved_def gm_index_def)
  have "\<forall>e \<in> set (entries ?r). returns e"
    using assms(2) run(1) by simp
  from Route_returns [OF assms(1) run(3) this res, of rt] show ?thesis
    using run(1,2) announced_nonempty [of "rev evs" a]
    by (auto simp: entry_matches_iff split: option.splits)
qed

text \<open>C35: registering and unregistering through paho's interface. Unregistering a topic removes
  exactly the recipients whose only pattern it is, keeps the others in order and leaves the
  aliases alone; and a handler registered just before makes no difference to what is left.\<close>

theorem unregister_undoes_register:
  assumes "debug r \<noteq> None"
  shows "(\<exists>r'. outcome (UnregisterHandler r t) = Ret r'
      \<and> entries r' = filter (\<lambda>e. patterns e \<noteq> [t]) (entries r) \<and> aliases r' = aliases r)
    \<and> outcome (seq (RegisterHandler r t h) (\<lambda>r1. UnregisterHandler r1 t))
        = outcome (UnregisterHandler r t)"
  using assms
  by (auto simp: UnregisterHandler_def RegisterHandler_def router_logger_def drop_handler_def AddRecipient_def
      kept_entries_filter seq_assoc)

section \<open>Witnesses\<close>

text \<open>Two recipients that record what they are handed, and a packet that announces an alias.\<close>

definition example_entries :: "(string \<times> publish) router_entry list" where
  "example_entries = [
     \<lparr>patterns = [''#'', ''dev''], handler = (\<lambda>m. ([(''first'', m)], Ret ()))\<rparr>,
     \<lparr>patterns = [''other''], handler = (\<lambda>m. ([(''second'', m)], Ret ()))\<rparr>]"

definition example_packet :: packet where
  "example_packet = \<lparr>pk_Topic = ''dev'', pk_QoS = 0, pk_Retain = False, pk_Payload = Some [1],
     pk_Properties = Some \<lparr>pk_TopicAlias = Some 7, pk_User = []\<rparr>\<rparr>"

lemma example_returns: "\<forall>e \<in> set example_entries. returns e"
  by (simp add: example_entries_def returns_def)

lemma Route_once_per_recipient_witness:
  "effects (Route example_runtime example_conversion
      (newSubscriberRouter\<lparr>entries := example_entries\<rparr>) (example_packet\<lparr>pk_Properties := None\<rparr>))
    = [(''first'', message_of (example_packet\<lparr>pk_Properties := None\<rparr>) ''dev'')]"
proof -
  let ?r = "newSubscriberRouter\<lparr>entries := example_entries\<rparr>"
  let ?pb = "example_packet\<lparr>pk_Properties := None\<rparr>"
  have "resolved ?r ?pb = (?r, ''dev'')"
    by (simp add: resolved_def alias_of_def example_packet_def)
  moreover have "well_formed ?r" "\<forall>e \<in> set (entries ?r). returns e" "debug ?r = Some (\<lambda>_. [])"
    using example_returns by (simp_all add: newSubscriberRouter_def well_formed_def)
  ultimately show ?thesis
    using Route_once_per_recipient [OF example_converts, of ?r ?pb ?r "''dev''" example_runtime]
    by (simp add: example_entries_def)
qed

lemma alias_scoped_to_connection_witness:
  "effects (Route example_runtime example_conversion
      (link_run example_runtime example_conversion (newSubscriberRouter\<lparr>entries := example_entries\<rparr>)
        [Inbound example_packet]) (example_packet\<lparr>pk_Topic := ''''\<rparr>))
    = [(''first'', message_of (example_packet\<lparr>pk_Topic := ''''\<rparr>) ''dev'')]
   \<and> effects (Route example_runtime example_conversion
      (link_run example_runtime example_conversion (newSubscriberRouter\<lparr>entries := example_entries\<rparr>)
        [Inbound example_packet, Reset]) (example_packet\<lparr>pk_Topic := ''''\<rparr>)) = []"
proof -
  have a: "alias_of (example_packet\<lparr>pk_Topic := ''''\<rparr>) = Some 7"
    "pk_Topic (example_packet\<lparr>pk_Topic := ''''\<rparr>) = ''''"
    by (simp_all add: alias_of_def example_packet_def)
  have "announced [Inbound example_packet] 7 = Some ''dev''"
    by (simp add: alias_of_def example_packet_def)
  moreover have "filter (\<lambda>e. \<exists>p \<in> set (patterns e). Matches example_runtime p ''dev'') example_entries
      = [hd example_entries]"
    by (simp add: example_entries_def)
  ultimately show ?thesis
    using alias_scoped_to_connection [OF example_converts example_returns a,
        of example_runtime "[Inbound example_packet]"]
      alias_scoped_to_connection [OF example_converts example_returns a,
        of example_runtime "[Inbound example_packet, Reset]"]
    by (simp del: announced.simps(3)) (simp add: example_entries_def)
qed

lemma unregister_undoes_register_witness:
  "\<exists>r'. outcome (UnregisterHandler (newSubscriberRouter\<lparr>entries := example_entries\<rparr>) ''other'') = Ret r'
    \<and> entries r' = [hd example_entries]"
  using unregister_undoes_register [of "newSubscriberRouter\<lparr>entries := example_entries\<rparr>" "''other''"
      "\<lambda>m. ([], Ret ())"]
  by (simp add: newSubscriberRouter_def) (auto simp: example_entries_def)

end
