(* ===== verification/Exchange.thy ===== *)
theory Exchange
  imports Publisher Subscriber Router
begin

text \<open>
  What a publisher and a subscriber make of each other through a broker that forwards messages:
  the value and the fields of an event come out as they went in, and the consumer's span is
  tied to the trace of the producer.
\<close>

section \<open>From a publisher to a subscriber\<close>

text \<open>
  The packet a broker forwards for a published message: on its topic, with its payload and its
  user properties, not retained, and without an alias. The quality of service may differ.
\<close>

definition forwards :: "publish \<Rightarrow> packet \<Rightarrow> bool" where
  "forwards m pb \<longleftrightarrow> pk_Topic pb = pub_Topic m \<and> pk_Payload pb = pub_Payload m
     \<and> packet_user pb = message_properties m \<and> \<not> pk_Retain pb \<and> alias_of pb = None"

lemma last_value_first_value:
  assumes "distinct (map Key ps)"
  shows "last_value ps k = (if isTrace k then None else first_value ps k)"
proof -
  have "distinct (map fst (map (\<lambda>p. (Key p, Value p)) ps))"
    using assms by (simp add: comp_def)
  from map_of_rev_unique [OF this] show ?thesis
    by (simp add: last_value_def first_value_def)
qed

text \<open>The call an event leads to carries its serialized payload and its fields.\<close>

lemma call_is_outgoing:
  assumes "p_wireFormat p = Some wfm" "pub_calls (effects (OnEvent rt p ctx topic v flds)) = [(c, m)]"
  shows "\<exists>t q r b. wf_Serialize wfm v = Inr b \<and> m = outgoing rt ctx t q r b flds"
  using assms(1)
proof (cases rule: OnEvent_cases [of p wfm rt ctx topic v flds])
  case (Sent fn t q r b)
  with assms(2) show ?thesis by (auto simp: send_calls)
qed (use assms(2) in auto)

text \<open>What one subscriber makes of the forwarded message.\<close>

lemma forwarded_event:
  assumes "ranges_ok rt" and "injects_headers rt" and "p_wireFormat p = Some wfm"
    and "pub_calls (effects (OnEvent rt p ctx topic v flds)) = [(c, m)]" and "forwards m pb"
    and "wired s" and "s_subscriber s = Some ev" and "s_wireFormat s = Some wfm'"
    and "\<forall>b. wf_Serialize wfm v = Inr b \<longrightarrow> b \<noteq> None \<and> wf_Deserialize wfm' b = Inr v"
    and "findSubscription rt s (pub_Topic m) = Inr sub" and "VinculumTopicFunc sub = None"
  shows "\<exists>c' flds'. sub_events (effects (HandleMessage rt s ctx' (message_of pb (pk_Topic pb))))
      = [(c', pub_Topic m, v, flds')]
    \<and> gm_get flds' = (\<lambda>k. if isTrace k then None else gm_get flds k)
        ++ gm_get (Extract rt (MQTTPattern sub) (pub_Topic m))"
proof -
  let ?msg = "message_of pb (pub_Topic m)"
  have topic: "pk_Topic pb = pub_Topic m"
    using assms(5) by (simp add: forwards_def)
  obtain t q r b where b: "wf_Serialize wfm v = Inr b" and m: "m = outgoing rt ctx t q r b flds"
    using call_is_outgoing [OF assms(3,4)] by blast
  have msg: "pub_Topic ?msg = pub_Topic m" "pub_Payload ?msg = b" "\<not> pub_Retain ?msg"
    "pub_Properties ?msg = Some \<lparr>User = message_properties m\<rparr>"
    using assms(5) by (simp_all add: forwards_def message_of_def m)
  have dec: "decoded wfm' ?msg = Inr v"
    using assms(9) b msg(2) by (auto simp: decoded_def)
  obtain flds' where flds': "messageFields rt sub ?msg = Ret flds'"
    using messageFields_Ret by blast
  have "last_value (message_properties m) k = (if isTrace k then None else gm_get flds k)" for k
    using last_value_first_value [OF outgoing_distinct [OF assms(1,2)]]
      outgoing_first_value [OF assms(1,2)] by (simp add: m isTrace_def)
  then have "gm_get flds' = (\<lambda>k. if isTrace k then None else gm_get flds k)
      ++ gm_get (Extract rt (MQTTPattern sub) (pub_Topic m))"
    using messageFields_get [OF assms(1) flds'] msg
    by (auto simp: event_fields_def map_add_def fun_eq_iff split: option.split)
  moreover have "HandleMessage rt s ctx' ?msg = deliver rt s
      (processingContext rt ctx' (remoteContext rt ?msg)) (remoteContext rt ?msg) ?msg (pub_Topic m) v flds'"
    using assms(10,11) flds' msg(1,3)
    by (simp add: HandleMessage_def processMessage_def Let_def decodePayload_decoded [OF assms(8)] dec
        vinculumTopic_def)
  ultimately show ?thesis by (simp add: topic deliver_events [OF assms(7)])
qed

text \<open>C8: what a publisher sends is what a subscriber hands on. When an event leads to a broker call
  and the broker forwards the message to a subscriber whose wire format reads what the
  publisher's writes, the subscriber delivers exactly one event: on the MQTT topic, with the
  value that was published, and with the published fields, overridden by what the
  subscription's pattern extracts and without the trace headers. The trace context injected
  on the way never shows up as a field.\<close>

theorem event_round_trip:
  assumes "ranges_ok rt" and "injects_headers rt" and "p_wireFormat p = Some wfm"
    and "pub_calls (effects (OnEvent rt p ctx topic v flds)) = [(c, m)]" and "forwards m pb"
    and "wired s" and "s_subscriber s = Some ev" and "s_wireFormat s = Some wfm'"
    and "\<forall>b. wf_Serialize wfm v = Inr b \<longrightarrow> b \<noteq> None \<and> wf_Deserialize wfm' b = Inr v"
    and "findSubscription rt s (pub_Topic m) = Inr sub" and "VinculumTopicFunc sub = None"
  shows "\<exists>c' flds'. sub_events (effects (HandleMessage rt s ctx' (message_of pb (pk_Topic pb))))
      = [(c', pub_Topic m, v, flds')]
    \<and> gm_get flds' = (\<lambda>k. if isTrace k then None else gm_get flds k)
        ++ gm_get (Extract rt (MQTTPattern sub) (pub_Topic m))"
  using forwarded_event [OF assms] .

section \<open>Trace context\<close>

text \<open>
  What OpenTelemetry documents for a propagator over a carrier without headers of its own:
  \<open>Extract\<close> reads what \<open>Inject\<close> wrote, the remote form \<open>remote_of\<close> of the context.
\<close>

definition carries_context :: "'c runtime \<Rightarrow> ('c \<Rightarrow> 'c) \<Rightarrow> bool" where
  "carries_context rt remote_of \<longleftrightarrow>
     (\<forall>ctx c. (\<forall>k \<in> set (Keys c). \<not> isTrace k) \<longrightarrow>
        prop_Extract rt (prop_Inject rt ctx c) = remote_of ctx)"

lemma field_keys:
  assumes "ranges_ok rt" "k \<in> set (Keys (New (fieldsToUserProperties rt flds)))"
  shows "gm_get flds k \<noteq> None"
proof -
  obtain v where "(k, v) \<in> set (range_fields rt flds)"
    using assms by (auto simp: Keys_def New_def fieldsToUserProperties_eq)
  moreover have "enumerates flds (range_fields rt flds)"
    using assms(1) by (simp add: ranges_ok_def)
  ultimately show ?thesis by (auto simp: enumerates_set)
qed

text \<open>A message that is forwarded unchanged has the context that was injected into it.\<close>

lemma forwarded_context:
  assumes "ranges_ok rt" "carries_context rt remote_of" "\<forall>k. gm_get flds k \<noteq> None \<longrightarrow> \<not> isTrace k"
    and "m = outgoing rt ctx t q r b flds" "forwards m pb"
  shows "remoteContext rt (message_of pb topic) = remote_of ctx"
proof -
  let ?c = "prop_Inject rt ctx (New (fieldsToUserProperties rt flds))"
  have "New (UserProperties ?c) = ?c"
    by (simp add: New_def UserProperties_def)
  moreover have "packet_user pb = UserProperties ?c"
    using assms(4,5) by (simp add: forwards_def outgoing_user)
  ultimately have "remoteContext rt (message_of pb topic) = prop_Extract rt ?c"
    by (simp add: remoteContext_def message_of_def)
  also have "\<dots> = remote_of ctx"
    using assms(2,3) field_keys [OF assms(1)] unfolding carries_context_def by blast
  finally show ?thesis .
qed

lemma deliver_span:
  "\<exists>opts rest. sub_spans (effects (deliver rt s ctx remote msg topic v flds)) =
     SpanStart (s_tracerProvider s) ''vinculum-mqtt/subscriber'' (''process '' @ topic) opts # rest
   \<and> sp_NewRoot opts \<and> sp_Kind opts = SpanKindConsumer
   \<and> sp_Link opts = (if span_ctx_valid rt remote then Some remote else None)"
  by (simp add: deliver_def Let_def split: option.split)

text \<open>C19: trace context survives the way through the broker, and what is linked to what. When the
  broker forwards the message of an event and a subscriber delivers it, the event is handled
  in a consumer span that is a root of its own and is linked to the context in which the
  event reached the publisher, if that is valid; that context's baggage, if there is any, and
  nothing else of it, is in the context the handler gets. The broker call itself ran in the
  producer span, which is started after the injection: the consumer is linked to the parent of
  that span, not to it.\<close>

theorem trace_context_round_trip:
  assumes "ranges_ok rt" and "carries_context rt remote_of"
    and "\<forall>k. gm_get flds k \<noteq> None \<longrightarrow> \<not> isTrace k" and "p_wireFormat p = Some wfm"
    and "pub_calls (effects (OnEvent rt p ctx topic v flds)) = [(c, m)]" and "forwards m pb"
    and "wired s"
    and "sub_events (effects (HandleMessage rt s ctx' (message_of pb (pk_Topic pb)))) = [(c', t, v', flds')]"
  shows "\<exists>opts rest.
      sub_spans (effects (HandleMessage rt s ctx' (message_of pb (pk_Topic pb)))) =
        SpanStart (s_tracerProvider s) ''vinculum-mqtt/subscriber'' (''process '' @ t) opts # rest
    \<and> sp_NewRoot opts \<and> sp_Kind opts = SpanKindConsumer
    \<and> sp_Link opts = (if span_ctx_valid rt (remote_of ctx) then Some (remote_of ctx) else None)
    \<and> c' = span_ctx rt (s_tracerProvider s)
        (if baggage_len rt (remote_of ctx) > 0 then with_baggage rt ctx' (remote_of ctx) else ctx')
        (''process '' @ t)
    \<and> c = span_ctx rt (p_tracerProvider p) ctx (''send '' @ pub_Topic m)"
proof -
  let ?msg = "message_of pb (pk_Topic pb)"
  obtain tq q r b where m: "m = outgoing rt ctx tq q r b flds"
    using call_is_outgoing [OF assms(4,5)] by blast
  have c: "c = span_ctx rt (p_tracerProvider p) ctx (''send '' @ pub_Topic m)"
    using assms(4)
    by (cases rule: OnEvent_cases [of p wfm rt ctx topic v flds]) (use assms(5) in \<open>auto simp: send_calls\<close>)
  note remote = forwarded_context [OF assms(1-3) m assms(6), of "pk_Topic pb"]
  obtain wfm' ev where sub: "s_wireFormat s = Some wfm'" "s_subscriber s = Some ev"
    using assms(7) by (auto simp: wired_def)
  from assms(7) sub(1) have "HandleMessage rt s ctx' ?msg =
      deliver rt s (processingContext rt ctx' (remote_of ctx)) (remote_of ctx) ?msg t v' flds'
    \<and> c' = span_ctx rt (s_tracerProvider s) (processingContext rt ctx' (remote_of ctx)) (''process '' @ t)"
  proof (cases rule: HandleMessage_cases [of s wfm' ?msg rt ctx'])
    case (Undecodable sub e)
    then show ?thesis
      using assms(8) by (simp add: decodeFailed_effects [OF assms(7)] split: option.splits)
  next
    case (Delivered sub' u f topic')
    then show ?thesis
      using assms(8) by (auto simp: deliver_events [OF sub(2)] remote)
  qed (use assms(8) in simp_all)
  then have run: "HandleMessage rt s ctx' ?msg =
      deliver rt s (processingContext rt ctx' (remote_of ctx)) (remote_of ctx) ?msg t v' flds'"
    and c': "c' = span_ctx rt (s_tracerProvider s) (processingContext rt ctx' (remote_of ctx)) (''process '' @ t)"
    by blast+
  show ?thesis
    unfolding run c' c processingContext_def [symmetric]
    using deliver_span [of rt s "processingContext rt ctx' (remote_of ctx)" "remote_of ctx" ?msg t v' flds']
    by blast
qed

section \<open>Witnesses\<close>

definition example_plain_publisher :: "(string, byte, string) publisher" where
  "example_plain_publisher =
     example_publisher\<lparr>p_topicMappings := [], p_defaultXform := DefaultTopicVerbatim\<rparr>"

definition example_fields :: "(string, string) gomap" where
  "example_fields = Some (fmap_of_list [(''a'', ''b'')])"

definition example_outgoing :: publish where
  "example_outgoing = outgoing example_runtime ''tp'' ''dev'' 1 False (Some [5]) example_fields"

definition example_forwarded :: packet where
  "example_forwarded = \<lparr>pk_Topic = ''dev'', pk_QoS = 0, pk_Retain = False, pk_Payload = Some [5],
     pk_Properties = Some \<lparr>pk_TopicAlias = None, pk_User = message_properties example_outgoing\<rparr>\<rparr>"

definition example_plain_subscriber :: "(string, byte, string) subscriber" where
  "example_plain_subscriber = example_subscriber\<lparr>s_subscriptions :=
     [example_subscription\<lparr>VinculumTopicFunc := None\<rparr>]\<rparr>"

lemma example_call:
  "pub_calls (effects (OnEvent example_runtime example_plain_publisher ''tp'' ''dev'' (Some 5) example_fields))
     = [(''send dev'', example_outgoing)]"
  by (simp add: OnEvent_def resolveMapping_def example_plain_publisher_def example_publisher_def
      DefaultTopicVerbatim_def DefaultTopicIgnore_def DefaultTopicError_def example_wire_def
      send_calls example_outgoing_def)

lemma example_forwards: "forwards example_outgoing example_forwarded"
  by (simp add: forwards_def example_forwarded_def packet_user_def alias_of_def)
     (simp add: example_outgoing_def)

lemma example_plain_wired: "wired example_plain_subscriber"
  using example_subscriber_wired by (simp add: wired_def example_plain_subscriber_def)

lemma example_plain_found:
  "findSubscription example_runtime example_plain_subscriber ''dev''
     = Inr (example_subscription\<lparr>VinculumTopicFunc := None\<rparr>)"
  by (simp add: findSubscription_def example_plain_subscriber_def example_subscription_def)

lemma example_plain_simps:
  "p_wireFormat example_plain_publisher = Some example_wire"
  "s_wireFormat example_plain_subscriber = Some example_wire"
  "s_subscriber example_plain_subscriber = Some example_sink"
  "s_tracerProvider example_plain_subscriber = None"
  "pub_Topic example_outgoing = ''dev''" "pk_Topic example_forwarded = ''dev''"
  "pk_Retain example_forwarded = False" "pk_Payload example_forwarded = Some [5]"
  by (simp_all add: example_plain_publisher_def example_publisher_def example_plain_subscriber_def
      example_subscriber_def example_outgoing_def example_forwarded_def)

lemma example_handled:
  "\<exists>f. sub_events (effects (HandleMessage example_runtime example_plain_subscriber ''ctx''
       (message_of example_forwarded ''dev''))) = [(''process dev'', ''dev'', Some 5, f)]"
proof -
  obtain f where f: "messageFields example_runtime (example_subscription\<lparr>VinculumTopicFunc := None\<rparr>)
      (message_of example_forwarded ''dev'') = Ret f"
    using messageFields_Ret by blast
  have d: "decoded example_wire (message_of example_forwarded ''dev'') = Inr (Some 5)"
    by (simp add: decoded_def example_plain_simps example_wire_def)
  show ?thesis
    by (simp add: HandleMessage_def example_plain_simps example_plain_found processMessage_def Let_def f
        decodePayload_decoded [OF example_plain_simps(2)] d vinculumTopic_def
        deliver_events [OF example_plain_simps(3)])
qed

theorem event_round_trip_witness:
  "\<exists>c flds. sub_events (effects (HandleMessage example_runtime example_plain_subscriber ''ctx''
       (message_of example_forwarded ''dev''))) = [(c, ''dev'', Some 5, flds)]
     \<and> gm_get flds ''a'' = Some ''b'' \<and> gm_get flds ''id'' = Some ''dev''
     \<and> gm_get flds ''traceparent'' = None"
proof -
  from event_round_trip [OF example_ranges_ok example_injects_headers example_plain_simps(1) example_call
      example_forwards example_plain_wired example_plain_simps(3,2), of _ "''ctx''"]
  obtain c flds where "sub_events (effects (HandleMessage example_runtime example_plain_subscriber ''ctx''
       (message_of example_forwarded ''dev''))) = [(c, ''dev'', Some 5, flds)]"
    and "gm_get flds = (\<lambda>k. if isTrace k then None else gm_get example_fields k)
        ++ gm_get (Extract example_runtime ''+id'' ''dev'')"
    by (auto simp: example_plain_simps example_plain_found example_wire_def example_subscription_def)
  then show ?thesis
    by (auto simp: isTrace_def traceHeaders_def example_fields_def map_add_def)
qed

text \<open>The context of the publisher's caller comes back as the link of the consumer's span.\<close>

theorem trace_context_round_trip_witness:
  "\<exists>opts rest.
      sub_spans (effects (HandleMessage example_runtime example_plain_subscriber ''ctx''
        (message_of example_forwarded (pk_Topic example_forwarded)))) =
      SpanStart None ''vinculum-mqtt/subscriber'' ''process dev'' opts # rest
    \<and> sp_Link opts = Some ''tp''"
proof -
  have "carries_context example_runtime id"
    unfolding carries_context_def
    by (auto simp: Get_def Set_def get_set_loop)
  moreover have "\<forall>k. gm_get example_fields k \<noteq> None \<longrightarrow> \<not> isTrace k"
    by (auto simp: example_fields_def isTrace_def traceHeaders_def)
  moreover obtain f where "sub_events (effects (HandleMessage example_runtime example_plain_subscriber
      ''ctx'' (message_of example_forwarded (pk_Topic example_forwarded)))) = [(''process dev'', ''dev'', Some 5, f)]"
    using example_handled by (auto simp: example_plain_simps)
  ultimately show ?thesis
    using trace_context_round_trip [OF example_ranges_ok _ _ example_plain_simps(1) example_call
        example_forwards example_plain_wired, of id "''ctx''"]
    by (auto simp: example_plain_simps example_runtime_def)
qed

end
