(* ===== verification/Limiter.thy ===== *)
theory Limiter
  imports Prelude
begin

text \<open>
  The reconnect limiter (\<open>reconnectLimiter\<close> of src/client/client.go): it counts the failed
  connection attempts of one outage and cancels the run when they reach the configured limit.
  Go's \<open>int\<close> is a 64-bit word here, compared as a signed number, so the increment of the
  counter wraps as it does in Go.
\<close>

section \<open>The limiter\<close>

record limiter =
  lim_max :: goint
  lim_logger :: "string option"
  connectedOnce :: bool
  failures :: goint

text \<open>The line logged on giving up, with the counts it carries, and the cancellation of the run.
  A logger is a pointer and may be nil.\<close>

datatype limiter_effect = GivingUp goint goint | StopRun

definition limiter_connected :: "limiter option \<Rightarrow> limiter option" where
  "limiter_connected l =
     (case l of
        None \<Rightarrow> None
      | Some r \<Rightarrow> Some (r\<lparr>connectedOnce := True, failures := 0\<rparr>))"

definition limiter_failed :: "limiter option \<Rightarrow> (limiter_effect, limiter option) comp" where
  "limiter_failed l =
     (case l of
        None \<Rightarrow> ret None
      | Some r \<Rightarrow>
          if lim_max r \<le>s 0 then ret (Some r)
          else if \<not> connectedOnce r then ret (Some r)
          else
            (let r' = r\<lparr>failures := failures r + 1\<rparr>;
                 reached = (lim_max r' \<le>s failures r')
             in if \<not> reached then ret (Some r')
                else (case lim_logger r' of
                        None \<Rightarrow> panic NilDereference
                      | Some _ \<Rightarrow>
                          ([GivingUp (failures r') (lim_max r'), StopRun], Ret (Some r')))))"

text \<open>The limiter \<open>Start\<close> makes.\<close>

definition new_limiter :: "goint \<Rightarrow> string option \<Rightarrow> limiter" where
  "new_limiter m lg = \<lparr>lim_max = m, lim_logger = lg, connectedOnce = False, failures = 0\<rparr>"

section \<open>The life of a limiter\<close>

text \<open>What happens to it: a connection comes up, or an attempt fails.\<close>

datatype attempt = Up | Fail

fun limiter_step ::
  "limiter option \<Rightarrow> attempt \<Rightarrow> (limiter_effect, limiter option) comp" where
  "limiter_step l Up = ret (limiter_connected l)"
| "limiter_step l Fail = limiter_failed l"

fun limiter_run ::
  "limiter option \<Rightarrow> attempt list \<Rightarrow> (limiter_effect, limiter option) comp" where
  "limiter_run l [] = ret l"
| "limiter_run l (a # as) = seq (limiter_step l a) (\<lambda>l'. limiter_run l' as)"

text \<open>
  The specification: the length of the current outage, if a connection was ever up.
\<close>

fun outage_step :: "nat option \<Rightarrow> attempt \<Rightarrow> nat option" where
  "outage_step n Up = Some 0"
| "outage_step n Fail = map_option Suc n"

definition outage :: "attempt list \<Rightarrow> nat option" where
  "outage as = foldl outage_step None as"

lemma outage_simps [simp]:
  "outage [] = None" "outage (as @ [Up]) = Some 0"
  "outage (as @ [Fail]) = map_option Suc (outage as)"
  by (simp_all add: outage_def)

lemma outage_Some_iff: "outage as = Some n \<longleftrightarrow> (\<exists>pre. as = pre @ Up # replicate n Fail)"
proof (induction as arbitrary: n rule: rev_induct)
  case Nil
  then show ?case by simp
next
  case (snoc a as)
  show ?case
  proof (cases a)
    case Up
    then show ?thesis
      by (cases n) (auto simp: replicate_append_same [symmetric] simp flip: append_Cons append_assoc)
  next
    case Fail
    show ?thesis
    proof (cases n)
      case 0
      with Fail show ?thesis by auto
    next
      case (Suc k)
      have "replicate (Suc k) Fail = replicate k Fail @ [Fail]"
        by (simp add: replicate_append_same)
      then have "as @ [Fail] = pre @ Up # replicate (Suc k) Fail \<longleftrightarrow> as = pre @ Up # replicate k Fail"
        for pre by simp
      with Fail Suc snoc.IH show ?thesis by auto
    qed
  qed
qed

lemma outage_less: "outage as = Some n \<Longrightarrow> n < length as"
  by (auto simp: outage_Some_iff)

text \<open>What the limiter knows after some attempts: whether a connection was up, and the outage.\<close>

definition limiter_after :: "goint \<Rightarrow> string \<Rightarrow> attempt list \<Rightarrow> limiter" where
  "limiter_after m lg as =
     \<lparr>lim_max = m, lim_logger = Some lg, connectedOnce = (outage as \<noteq> None),
      failures = (if 0 <s m then of_nat (case outage as of None \<Rightarrow> 0 | Some n \<Rightarrow> n) else 0)\<rparr>"

definition gives_up :: "goint \<Rightarrow> attempt list \<Rightarrow> bool" where
  "gives_up m as \<longleftrightarrow> 0 <s m \<and> (\<exists>n. outage as = Some n \<and> sint m \<le> int n + 1)"

lemma sint_small: "n < 2 ^ 63 \<Longrightarrow> sint (of_nat n :: goint) = int n"
  by (simp add: signed_of_nat signed_take_bit_int_eq_self)

lemma limiter_step_after:
  assumes "length as < 2 ^ 63 - 1"
  shows "limiter_step (Some (limiter_after m lg as)) a
    = (if a = Fail \<and> gives_up m as
       then ([GivingUp (of_nat (Suc (the (outage as)))) m, StopRun],
             Ret (Some (limiter_after m lg (as @ [a]))))
       else ret (Some (limiter_after m lg (as @ [a]))))"
proof (cases a)
  case Up
  then show ?thesis
    by (simp add: limiter_after_def limiter_connected_def)
next
  case Fail
  show ?thesis
  proof (cases "outage as")
    case None
    with Fail show ?thesis
      by (simp add: limiter_after_def limiter_failed_def gives_up_def)
  next
    case (Some n)
    then have "Suc n < 2 ^ 63" using assms outage_less by fastforce
    then have "sint (of_nat (Suc n) :: goint) = int n + 1"
      by (simp only: sint_small)
    then have "m \<le>s of_nat (Suc n) \<longleftrightarrow> sint m \<le> int n + 1"
      by (simp add: word_sle_eq)
    moreover have "of_nat n + 1 = (of_nat (Suc n) :: goint)" by simp
    moreover have "0 <s m \<longleftrightarrow> \<not> m \<le>s 0"
      by (simp add: word_sless_alt word_sle_eq not_le)
    ultimately show ?thesis
      using Some Fail
      by (simp add: limiter_after_def limiter_failed_def gives_up_def Let_def ret_def
          del: of_nat_Suc)
  qed
qed

lemma limiter_run_snoc:
  "limiter_run l (as @ [a]) = seq (limiter_run l as) (\<lambda>l'. limiter_step l' a)"
  by (induction as arbitrary: l) (simp_all add: seq_assoc)

lemma limiter_run_outcome:
  assumes "length as < 2 ^ 63"
  shows "outcome (limiter_run (Some (new_limiter m (Some lg))) as) = Ret (Some (limiter_after m lg as))"
  using assms
proof (induction as rule: rev_induct)
  case Nil
  then show ?case by (simp add: new_limiter_def limiter_after_def)
next
  case (snoc a as)
  then obtain fs where "limiter_run (Some (new_limiter m (Some lg))) as = (fs, Ret (Some (limiter_after m lg as)))"
    by (cases "limiter_run (Some (new_limiter m (Some lg))) as") auto
  moreover have "length as < 2 ^ 63 - 1" using snoc.prems by simp
  ultimately show ?case
    by (simp add: limiter_run_snoc limiter_step_after ret_def)
qed

lemma limiter_run_effects_snoc:
  assumes "length as < 2 ^ 63 - 1"
  shows "effects (limiter_run (Some (new_limiter m (Some lg))) (as @ [a]))
    = effects (limiter_run (Some (new_limiter m (Some lg))) as)
      @ (if a = Fail \<and> gives_up m as then [GivingUp (of_nat (Suc (the (outage as)))) m, StopRun]
         else [])"
proof -
  have "outcome (limiter_run (Some (new_limiter m (Some lg))) as) = Ret (Some (limiter_after m lg as))"
    using assms by (intro limiter_run_outcome) simp
  then obtain fs where "limiter_run (Some (new_limiter m (Some lg))) as = (fs, Ret (Some (limiter_after m lg as)))"
    by (cases "limiter_run (Some (new_limiter m (Some lg))) as") auto
  then show ?thesis
    using assms by (simp add: limiter_run_snoc limiter_step_after)
qed

text \<open>An outage of at least \<open>k\<close> attempts, looked at from its last attempt.\<close>

lemma long_outage_snoc:
  assumes "0 < k"
  shows "(\<exists>pre post. as @ [a] = pre @ Up # replicate k Fail @ post)
    \<longleftrightarrow> (\<exists>pre post. as = pre @ Up # replicate k Fail @ post)
      \<or> a = Fail \<and> (\<exists>n. outage as = Some n \<and> k \<le> n + 1)" (is "?new \<longleftrightarrow> ?old \<or> ?now")
proof
  assume ?new
  then obtain pre post where eq: "as @ [a] = pre @ Up # replicate k Fail @ post" by blast
  show "?old \<or> ?now"
  proof (cases post rule: rev_cases)
    case Nil
    with eq have "outage (as @ [a]) = Some k" by (auto simp: outage_Some_iff)
    then show ?thesis using assms by (cases a) auto
  next
    case (snoc post' b)
    with eq have "as = pre @ Up # replicate k Fail @ post'" by simp
    then show ?thesis by blast
  qed
next
  assume "?old \<or> ?now"
  then show ?new
  proof
    assume ?old
    then obtain pre post where "as @ [a] = pre @ Up # replicate k Fail @ (post @ [a])" by auto
    then show ?new by blast
  next
    assume ?now
    then obtain n where "outage as = Some n" "k \<le> n + 1" "a = Fail" by blast
    then have "outage (as @ [a]) = Some (k + (n + 1 - k))" by simp
    then obtain pre where "as @ [a] = pre @ Up # replicate k Fail @ replicate (n + 1 - k) Fail"
      unfolding outage_Some_iff replicate_add by auto
    then show ?new by blast
  qed
qed

lemma limiter_stops:
  assumes "length as < 2 ^ 63"
  shows "StopRun \<in> set (effects (limiter_run (Some (new_limiter m (Some lg))) as))
    \<longleftrightarrow> 0 < sint m \<and> (\<exists>pre post. as = pre @ Up # replicate (nat (sint m)) Fail @ post)"
  using assms
proof (induction as rule: rev_induct)
  case Nil
  then show ?case by simp
next
  case (snoc a as)
  have "gives_up m as \<longleftrightarrow> 0 < sint m \<and> (\<exists>n. outage as = Some n \<and> nat (sint m) \<le> n + 1)"
    by (auto simp: gives_up_def word_sless_alt nat_le_iff)
  moreover have "StopRun \<in> set (effects (limiter_run (Some (new_limiter m (Some lg))) (as @ [a])))
      \<longleftrightarrow> StopRun \<in> set (effects (limiter_run (Some (new_limiter m (Some lg))) as)) \<or> a = Fail \<and> gives_up m as"
    using snoc.prems by (simp add: limiter_run_effects_snoc)
  moreover have "StopRun \<in> set (effects (limiter_run (Some (new_limiter m (Some lg))) as))
      \<longleftrightarrow> 0 < sint m \<and> (\<exists>pre post. as = pre @ Up # replicate (nat (sint m)) Fail @ post)"
    using snoc by simp
  ultimately show ?case
    using long_outage_snoc [of "nat (sint m)" as a] by (cases "0 < sint m") simp_all
qed

section \<open>Properties\<close>

text \<open>The limiter cancels the run exactly when, after a connection has been up, the configured
  number of attempts has failed in a row. Failures before the first connection and failures of
  earlier outages do not count, and a limit that is zero or negative never cancels. The bound
  on the length is the range of Go's \<open>int\<close>.\<close>

theorem limiter_stops_iff:
  assumes "length as < 2 ^ 63"
  shows "StopRun \<in> set (effects (limiter_run (Some (new_limiter m (Some lg))) as))
    \<longleftrightarrow> 0 < sint m \<and> (\<exists>pre post. as = pre @ Up # replicate (nat (sint m)) Fail @ post)"
  using limiter_stops [OF assms] .

theorem limiter_stops_iff_witness:
  "StopRun \<in> set (effects (limiter_run (Some (new_limiter 2 (Some ''nop''))) [Fail, Fail, Up, Fail, Fail]))
   \<and> StopRun \<notin> set (effects (limiter_run (Some (new_limiter 0 (Some ''nop''))) [Up, Fail, Fail]))"
proof -
  have "sint (2 :: goint) = 2" by simp
  then have "\<exists>pre post. [Fail, Fail, Up, Fail, Fail] = pre @ Up # replicate (nat (sint (2 :: goint))) Fail @ post"
    by (intro exI [of _ "[Fail, Fail]"] exI [of _ "[]"]) (simp add: numeral_2_eq_2)
  then show ?thesis
    using limiter_stops_iff [of "[Fail, Fail, Up, Fail, Fail]" 2 "''nop''"] limiter_stops_iff [of "[Up, Fail, Fail]" 0 "''nop''"]
    by simp
qed

text \<open>C33: every failed attempt from the limit on is reported with the length of the outage so far and
  cancels the run, and any other attempt has no effect at all; in particular the counter is
  exact and does not wrap, and a client without a limiter is never stopped.\<close>

theorem limiter_failed_exact:
  assumes "length as < 2 ^ 63 - 1"
  shows "effects (seq (limiter_run (Some (new_limiter m (Some lg))) as) limiter_failed)
    = effects (limiter_run (Some (new_limiter m (Some lg))) as)
      @ (case outage as of
           None \<Rightarrow> []
         | Some n \<Rightarrow> if 0 < sint m \<and> sint m \<le> int n + 1
                     then [GivingUp (of_nat (Suc n)) m, StopRun] else [])"
proof -
  have "effects (seq (limiter_run (Some (new_limiter m (Some lg))) as) limiter_failed)
      = effects (limiter_run (Some (new_limiter m (Some lg))) (as @ [Fail]))"
    by (simp add: limiter_run_snoc)
  then show ?thesis
    using assms by (simp add: limiter_run_effects_snoc gives_up_def word_sless_alt split: option.splits)
qed

theorem limiter_failed_exact_witness:
  "effects (seq (limiter_run (Some (new_limiter 2 (Some ''nop''))) [Fail, Up, Fail]) limiter_failed)
    = [GivingUp 2 2, StopRun]"
proof -
  have "effects (limiter_run (Some (new_limiter 2 (Some ''nop''))) [Fail, Up, Fail]) = []"
    by (simp add: new_limiter_def limiter_failed_def limiter_connected_def ret_def word_sle_eq Let_def)
  moreover have "outage [Fail, Up, Fail] = Some 1" by (simp add: outage_def)
  ultimately show ?thesis
    using limiter_failed_exact [of "[Fail, Up, Fail]" 2 "''nop''"] by simp
qed

end
