(* ===== verification/Client.thy ===== *)
theory Client
  imports Publisher Subscriber Router Limiter
begin

text \<open>
  The package client (src/client/client.go, src/client/config.go): one connection shared by
  publishers and subscribers. Here are the configuration, the construction, the callbacks
  that autopaho calls when a connection comes up, goes down or cannot be made, and \<open>Start\<close> and
  \<open>Stop\<close>; \<open>Lifecycle\<close> runs them as a state machine. What the client asks of autopaho's connection
  manager is a record of functions, \<open>manager\<close>.
\<close>

section \<open>Configuration\<close>

record url =
  Scheme :: string
  Host :: string
  url_text :: string

record will_config =
  will_Topic :: string
  will_Payload :: payload
  will_QoS :: byte
  will_Retain :: bool

text \<open>A duration is a number of nanoseconds. TLS settings, hooks and providers are opaque.\<close>

record client_config =
  ServerURLs :: "url list"
  ClientName :: string
  ClientID :: string
  KeepAlive :: goint
  CleanStart :: bool
  SessionExpiryInterval :: uint32
  TLSConfig :: "opaque option"
  Username :: string
  Password :: payload
  WillMessage :: "will_config option"
  ReconnectBackoffFunc :: "opaque option"
  MaxReconnectAttempts :: goint
  OnConnect :: "opaque option"
  OnDisconnect :: "opaque option"
  MeterProvider :: "opaque option"
  Logger :: "opaque option"

section \<open>The client\<close>

record ('c, 'e) manager =
  mgr_Subscribe :: "'c \<Rightarrow> subscribe_options list \<Rightarrow> 'e option"
  mgr_Publish :: "('c, 'e) publish_func"
  mgr_Disconnect :: "'c \<Rightarrow> 'e option"

text \<open>Of the function that cancels the run, the client only knows whether it holds one.\<close>

record ('c, 'm, 'e) client =
  c_cfg :: client_config
  c_publishers :: "('c, 'm, 'e) publisher list"
  c_subscribers :: "('c, 'm, 'e) subscriber list"
  c_metrics :: "client_metrics option"
  c_logger :: "opaque option"
  c_cm :: "('c, 'e) manager option"
  c_stopRun :: bool
  c_connected :: bool

datatype ('c, 'm, 'e) client_effect =
    LogAttemptFailed 'e
  | LogGivingUp goint goint
  | LogSubscribeFailed 'e
  | LogHandleError string "'e sub_error"
  | CancelRun
  | SubscribeCall 'c "subscribe_options list"
  | DisconnectCall 'c
  | ClientMeasure measurement
  | ConnectHook opaque 'c
  | DisconnectHook opaque 'c
  | StartReadyClosed
  | SubscriberEffect "('c, 'm, 'e) sub_effect"

type_synonym ('c, 'm, 'e, 'a) client_comp = "(('c, 'm, 'e) client_effect, 'a) comp"

definition log_line :: "opaque option \<Rightarrow> 'f \<Rightarrow> ('f, unit) comp" where
  "log_line l line = (case l of None \<Rightarrow> panic NilDereference | Some _ \<Rightarrow> emit [line])"

definition NewClient :: "client_config \<Rightarrow> ('c, 'm, 'e) client option" where
  "NewClient cfg =
     (if length (ServerURLs cfg) = 0 then None
      else
        (let logger = (case Logger cfg of None \<Rightarrow> Some ''nop'' | Some l \<Rightarrow> Some l);
             meter = (case MeterProvider cfg of
                        None \<Rightarrow> None
                      | Some _ \<Rightarrow> Some ''github.com/tsarna/vinculum-mqtt/client'')
         in Some \<lparr>c_cfg = cfg, c_publishers = [], c_subscribers = [],
                  c_metrics = NewClientMetrics (ClientName cfg) meter, c_logger = logger,
                  c_cm = None, c_stopRun = False, c_connected = False\<rparr>))"

definition AddPublisher ::
  "('c, 'm, 'e) client \<Rightarrow> ('c, 'm, 'e) publisher \<Rightarrow> ('c, 'm, 'e) client" where
  "AddPublisher c p = c\<lparr>c_publishers := c_publishers c @ [p]\<rparr>"

definition AddSubscriber ::
  "('c, 'm, 'e) client \<Rightarrow> ('c, 'm, 'e) subscriber \<Rightarrow> ('c, 'm, 'e) client" where
  "AddSubscriber c s = c\<lparr>c_subscribers := c_subscribers c @ [s]\<rparr>"

definition IsConnected :: "('c, 'm, 'e) client \<Rightarrow> bool" where
  "IsConnected c = c_connected c"

definition setConnected :: "('c, 'm, 'e) client \<Rightarrow> bool \<Rightarrow> ('c, 'm, 'e) client" where
  "setConnected c b = c\<lparr>c_connected := b\<rparr>"

section \<open>What is handed to autopaho\<close>

text \<open>The handler the client registers for a subscriber: an error it returns is logged.\<close>

definition subscriberHandler ::
  "'c runtime \<Rightarrow> opaque option \<Rightarrow> 'c \<Rightarrow> ('c, 'm, 'e) subscriber
    \<Rightarrow> ('c, 'm, 'e) client_effect message_handler" where
  "subscriberHandler rt lg ctx sub msg =
     seq (relabel SubscriberEffect (HandleMessage rt sub ctx msg)) (\<lambda>err.
       case err of
         None \<Rightarrow> ret ()
       | Some e \<Rightarrow> log_line lg (LogHandleError (pub_Topic msg) e))"

definition buildRouter ::
  "'c runtime \<Rightarrow> ('c, 'm, 'e) client \<Rightarrow> 'c \<Rightarrow> ('c, 'm, 'e) client_effect router" where
  "buildRouter rt c ctx =
     foldl (\<lambda>r sub. AddRecipient r (MQTTPatterns sub) (subscriberHandler rt (c_logger c) ctx sub))
       newSubscriberRouter (c_subscribers c)"

definition buildSubscribeOptions :: "('c, 'm, 'e) client \<Rightarrow> subscribe_options list" where
  "buildSubscribeOptions c =
     foldl (\<lambda>opts sub. opts @ BrokerSubscriptions sub) [] (c_subscribers c)"

definition buildWillMessage :: "will_config option \<Rightarrow> publish option" where
  "buildWillMessage w =
     (case w of
        None \<Rightarrow> None
      | Some cfg \<Rightarrow> Some \<lparr>pub_Topic = will_Topic cfg, pub_QoS = will_QoS cfg,
          pub_Retain = will_Retain cfg, pub_Payload = will_Payload cfg, pub_Properties = None\<rparr>)"

text \<open>
  \<open>uint16(d.Seconds())\<close> for a positive duration. In the range of \<open>uint16\<close> the conversion truncates
  the seconds; outside it Go leaves the result to the implementation, the parameter
  \<open>out_of_range\<close>. (Below \<open>2 ^ 16\<close> seconds the 53 bits of the float separate any two durations,
  so that truncating the float and dividing the nanoseconds give the same number.)
\<close>

definition keepAliveSecs :: "(goint \<Rightarrow> uint16) \<Rightarrow> goint \<Rightarrow> uint16" where
  "keepAliveSecs out_of_range d =
     (if 0 <s d
      then (let secs = uint d div 1000000000
            in if secs < 65536 then word_of_int secs else out_of_range d)
      else 0)"

record 'f paho_config =
  pc_Router :: "'f router"
  pc_ClientID :: string

record 'f autopaho_config =
  ac_ServerUrls :: "url list"
  ac_TlsCfg :: "opaque option"
  ac_KeepAlive :: uint16
  ac_CleanStart :: bool
  ac_SessionExpiryInterval :: uint32
  ac_Username :: string
  ac_Password :: payload
  ac_ReconnectBackoff :: "opaque option"
  ac_WillMessage :: "publish option"
  ac_ClientConfig :: "'f paho_config"

text \<open>
  The data of autopaho's configuration; the callbacks in it are the operations below, and the
  dialer is \<open>attemptConnection\<close> of \<open>Websocket\<close>.
\<close>

definition pahoConfig :: "('c, 'm, 'e) client \<Rightarrow> 'f router \<Rightarrow> 'f paho_config" where
  "pahoConfig c router = \<lparr>pc_Router = router, pc_ClientID = ClientID (c_cfg c)\<rparr>"

definition buildAutopahoConfig ::
  "(goint \<Rightarrow> uint16) \<Rightarrow> ('c, 'm, 'e) client \<Rightarrow> 'f router \<Rightarrow> 'f autopaho_config" where
  "buildAutopahoConfig out_of_range c router =
     (let cfg = c_cfg c
      in \<lparr>ac_ServerUrls = ServerURLs cfg, ac_TlsCfg = TLSConfig cfg,
          ac_KeepAlive = keepAliveSecs out_of_range (KeepAlive cfg),
          ac_CleanStart = CleanStart cfg,
          ac_SessionExpiryInterval = SessionExpiryInterval cfg,
          ac_Username = Username cfg, ac_Password = Password cfg,
          ac_ReconnectBackoff = ReconnectBackoffFunc cfg,
          ac_WillMessage = buildWillMessage (WillMessage cfg),
          ac_ClientConfig = pahoConfig c router\<rparr>)"

section \<open>The callbacks\<close>

text \<open>
  What one call of \<open>Start\<close> creates and its callbacks capture: the router, the limiter, whether
  \<open>startReady\<close> is closed, and \<open>firstConn\<close>. The callbacks also write the client.
\<close>

record ('c, 'm, 'e) run =
  r_router :: "('c, 'm, 'e) client_effect router"
  r_limiter :: "limiter option"
  r_readyClosed :: bool
  r_firstConn :: bool

fun limiter_line :: "limiter_effect \<Rightarrow> ('c, 'm, 'e) client_effect" where
  "limiter_line (GivingUp n m) = LogGivingUp n m"
| "limiter_line StopRun = CancelRun"

definition OnConnectError ::
  "('c, 'm, 'e) client \<Rightarrow> ('c, 'm, 'e) run \<Rightarrow> 'e \<Rightarrow> ('c, 'm, 'e, ('c, 'm, 'e) run) client_comp" where
  "OnConnectError c r e =
     seq (log_line (c_logger c) (LogAttemptFailed e)) (\<lambda>_.
       seq (relabel limiter_line (limiter_failed (r_limiter r))) (\<lambda>l.
         ret (r\<lparr>r_limiter := l\<rparr>)))"

definition closeReady ::
  "('c, 'm, 'e) run \<Rightarrow> ('c, 'm, 'e, ('c, 'm, 'e) run) client_comp" where
  "closeReady r =
     (if r_readyClosed r then panic CloseOfClosedChannel
      else ([StartReadyClosed], Ret (r\<lparr>r_readyClosed := True\<rparr>)))"

definition subscribeAll ::
  "('c, 'm, 'e) client \<Rightarrow> 'c \<Rightarrow> ('c, 'e) manager \<Rightarrow> ('c, 'm, 'e, unit) client_comp" where
  "subscribeAll c ctx cm =
     (let opts = buildSubscribeOptions c
      in if length opts > 0
         then seq (emit [SubscribeCall ctx opts]) (\<lambda>_.
                case mgr_Subscribe cm ctx opts of
                  None \<Rightarrow> ret ()
                | Some e \<Rightarrow> log_line (c_logger c) (LogSubscribeFailed e))
         else ret ())"

text \<open>The first part of it, up to where the hook is called.\<close>

definition established ::
  "('c, 'm, 'e) client \<Rightarrow> ('c, 'm, 'e) run \<Rightarrow> 'c \<Rightarrow> ('c, 'e) manager
    \<Rightarrow> ('c, 'm, 'e, ('c, 'm, 'e) client \<times> ('c, 'm, 'e) run) client_comp" where
  "established c r ctx cm =
     (let r = r\<lparr>r_limiter := limiter_connected (r_limiter r)\<rparr>;
          r = r\<lparr>r_router := resetAliases (r_router r)\<rparr>
      in seq (subscribeAll c ctx cm) (\<lambda>_.
           let c = setConnected c True
           in seq (emit (map ClientMeasure (CM_SetConnected (c_metrics c) True))) (\<lambda>_.
              seq (if \<not> r_firstConn r
                   then emit (map ClientMeasure (CM_IncrReconnects (c_metrics c))) else ret ()) (\<lambda>_.
              ret (c, r)))))"

definition OnConnectionUp ::
  "('c, 'm, 'e) client \<Rightarrow> ('c, 'm, 'e) run \<Rightarrow> 'c \<Rightarrow> ('c, 'e) manager
    \<Rightarrow> ('c, 'm, 'e, ('c, 'm, 'e) client \<times> ('c, 'm, 'e) run) client_comp" where
  "OnConnectionUp c r ctx cm =
     seq (established c r ctx cm) (\<lambda>(c, r).
     seq (case OnConnect (c_cfg c) of
            None \<Rightarrow> ret ()
          | Some hook \<Rightarrow> emit [ConnectHook hook ctx]) (\<lambda>_.
     if r_firstConn r
     then (let r = r\<lparr>r_firstConn := False\<rparr>;
               c = c\<lparr>c_publishers :=
                     map (\<lambda>p. SetPublishFunc p (Some (mgr_Publish cm))) (c_publishers c)\<rparr>
           in seq (closeReady r) (\<lambda>r. ret (c, r)))
     else ret (c, r)))"

text \<open>It returns true: always reconnect.\<close>

definition OnConnectionDown ::
  "('c, 'm, 'e) client \<Rightarrow> ('c, 'm, 'e) run \<Rightarrow> 'c
    \<Rightarrow> ('c, 'm, 'e, bool \<times> ('c, 'm, 'e) client \<times> ('c, 'm, 'e) run) client_comp" where
  "OnConnectionDown c r ctx =
     (let r = r\<lparr>r_router := resetAliases (r_router r)\<rparr>;
          c = setConnected c False
      in seq (emit (map ClientMeasure (CM_SetConnected (c_metrics c) False))) (\<lambda>_.
           seq (case OnDisconnect (c_cfg c) of
                  None \<Rightarrow> ret ()
                | Some hook \<Rightarrow> emit [DisconnectHook hook ctx]) (\<lambda>_.
             ret (True, c, r))))"

text \<open>A packet that autopaho's incoming loop hands to the router.\<close>

definition routePacket ::
  "'c runtime \<Rightarrow> (packet \<Rightarrow> publish outcome) \<Rightarrow> ('c, 'm, 'e) run \<Rightarrow> packet
    \<Rightarrow> ('c, 'm, 'e, ('c, 'm, 'e) run) client_comp" where
  "routePacket rt fromPacket r pb =
     seq (Route rt fromPacket (r_router r) pb) (\<lambda>router. ret (r\<lparr>r_router := router\<rparr>))"

section \<open>Start and Stop\<close>

datatype 'e start_error =
    AlreadyStarted
  | CreateManager 'e
  | CancelledWaiting 'e
  | ManagerTerminated

text \<open>
  \<open>Start\<close> up to its \<open>select\<close>: the guard, which is evaluated under the lock, and after it the
  creation of the run, unless autopaho refuses (\<open>refused\<close>). From here on the callbacks may be
  called.

  The context \<open>ctx\<close> of the run is \<open>runCtx\<close>, derived from the caller's by \<open>context.WithCancel\<close>: it is
  over once its own cancel function has been called, which is the effect \<open>CancelRun\<close>, or the
  caller's context has ended (with the error \<open>caller\<close>), whichever comes first (\<open>runCtx_done\<close>).
\<close>

definition runCtx_done :: "'e option \<Rightarrow> bool \<Rightarrow> bool" where
  "runCtx_done caller cancel_called \<longleftrightarrow> cancel_called \<or> caller \<noteq> None"

definition startGuard :: "('c, 'm, 'e) client \<Rightarrow> 'e start_error option" where
  "startGuard c = (if c_cm c \<noteq> None then Some AlreadyStarted else None)"

definition createRun ::
  "'c runtime \<Rightarrow> ('c, 'm, 'e) client \<Rightarrow> 'c \<Rightarrow> 'e option
    \<Rightarrow> ('c, 'm, 'e, 'e start_error + ('c, 'm, 'e) run) client_comp" where
  "createRun rt c ctx refused =
     (let limiter = new_limiter (MaxReconnectAttempts (c_cfg c)) (c_logger c);
          router = buildRouter rt c ctx
      in case refused of
           Some e \<Rightarrow> ([CancelRun], Ret (Inl (CreateManager e)))
         | None \<Rightarrow> ret (Inr \<lparr>r_router = router, r_limiter = Some limiter,
              r_readyClosed = False, r_firstConn = True\<rparr>))"

definition startRun ::
  "'c runtime \<Rightarrow> ('c, 'm, 'e) client \<Rightarrow> 'c \<Rightarrow> 'e option
    \<Rightarrow> ('c, 'm, 'e, 'e start_error + ('c, 'm, 'e) run) client_comp" where
  "startRun rt c ctx refused =
     (case startGuard c of
        Some e \<Rightarrow> ret (Inl e)
      | None \<Rightarrow> createRun rt c ctx refused)"

text \<open>
  The \<open>select\<close> of \<open>Start\<close> and what follows: which case is taken, of those that are ready, is the
  argument.
\<close>

datatype 'e selected = StartReady | ContextDone 'e | ManagerDone

fun finishStart ::
  "('c, 'm, 'e) client \<Rightarrow> ('c, 'e) manager \<Rightarrow> 'e selected
    \<Rightarrow> ('c, 'm, 'e, 'e start_error option \<times> ('c, 'm, 'e) client) client_comp" where
  "finishStart c cm StartReady = ret (None, c\<lparr>c_cm := Some cm, c_stopRun := True\<rparr>)"
| "finishStart c cm (ContextDone e) = ([CancelRun], Ret (Some (CancelledWaiting e), c))"
| "finishStart c cm ManagerDone = ([CancelRun], Ret (Some ManagerTerminated, c))"

text \<open>
  \<open>Stop\<close>: the deferred calls run in reverse order after the disconnect, the connected flag
  first and then the cancellation.
\<close>

definition Stop ::
  "('c, 'm, 'e) client \<Rightarrow> 'c \<Rightarrow> ('c, 'm, 'e, 'e option \<times> ('c, 'm, 'e) client) client_comp" where
  "Stop c ctx =
     (let release = (if c_stopRun c then [CancelRun] else [])
      in case c_cm c of
           None \<Rightarrow> (release, Ret (None, c))
         | Some cm \<Rightarrow>
             ([DisconnectCall ctx] @ release, Ret (mgr_Disconnect cm ctx, setConnected c False)))"

section \<open>The router of a client\<close>

lemma log_line_simps [simp]:
  "log_line (Some l) x = ([x], Ret ())" "log_line None x = panic NilDereference"
  by (simp_all add: log_line_def emit_def)

definition client_entries ::
  "'c runtime \<Rightarrow> ('c, 'm, 'e) client \<Rightarrow> 'c \<Rightarrow> ('c, 'm, 'e) client_effect router_entry list" where
  "client_entries rt c ctx =
     map (\<lambda>sub. \<lparr>patterns = MQTTPatterns sub, handler = subscriberHandler rt (c_logger c) ctx sub\<rparr>)
       (c_subscribers c)"

lemma foldl_AddRecipient:
  "foldl (\<lambda>r sub. AddRecipient r (f sub) (g sub)) r subs
     = r\<lparr>entries := entries r @ map (\<lambda>sub. \<lparr>patterns = f sub, handler = g sub\<rparr>) subs\<rparr>"
  by (induction subs arbitrary: r) (simp_all add: AddRecipient_def)

lemma buildRouter_eq:
  "buildRouter rt c ctx = newSubscriberRouter\<lparr>entries := client_entries rt c ctx\<rparr>"
  by (simp add: buildRouter_def client_entries_def foldl_AddRecipient newSubscriberRouter_def)

lemma foldl_append_map: "foldl (\<lambda>acc x. acc @ f x) acc xs = acc @ concat (map f xs)"
  by (induction xs arbitrary: acc) simp_all

lemma buildSubscribeOptions_eq:
  "buildSubscribeOptions c = concat (map BrokerSubscriptions (c_subscribers c))"
  by (simp add: buildSubscribeOptions_def foldl_append_map)

text \<open>A client that the constructor and the two registrations make, of parts that builders make.\<close>

definition well_built :: "('c, 'm, 'e) client \<Rightarrow> bool" where
  "well_built c \<longleftrightarrow> c_logger c \<noteq> None \<and> (\<forall>s \<in> set (c_subscribers c). wired s)
     \<and> c_cm c = None \<and> \<not> c_stopRun c \<and> \<not> c_connected c"

lemma NewClient_well_built: "NewClient cfg = Some c \<Longrightarrow> well_built c"
  by (auto simp: NewClient_def well_built_def Let_def split: if_splits option.splits)

lemma Add_well_built:
  "well_built c \<Longrightarrow> well_built (AddPublisher c p)"
  "well_built c \<Longrightarrow> wired s \<Longrightarrow> well_built (AddSubscriber c s)"
  by (auto simp: well_built_def AddPublisher_def AddSubscriber_def)

lemma subscriberHandler_returns:
  assumes "wired s" "lg \<noteq> None"
  shows "outcome (subscriberHandler rt lg ctx s msg) = Ret ()"
proof -
  obtain effs res where "HandleMessage rt s ctx msg = (effs, Ret res)"
    using HandleMessage_balanced [OF assms(1)] by blast
  then show ?thesis
    using assms(2) by (auto simp: subscriberHandler_def split: option.splits)
qed

lemma client_entries_return:
  "well_built c \<Longrightarrow> \<forall>e \<in> set (client_entries rt c ctx). returns e"
  by (auto simp: well_built_def client_entries_def returns_def subscriberHandler_returns)

text \<open>
  Routing and dispatch agree: a subscriber that the router picks finds a subscription, so no
  routed message is ever logged as unmatched.
\<close>

lemma routed_is_matched:
  assumes "wired s" "\<exists>p \<in> set (MQTTPatterns s). Matches rt p (pub_Topic msg)"
  shows "LogHandleError t (NoSubscriptionMatched u) \<notin> set (effects (subscriberHandler rt lg ctx s msg))"
proof -
  obtain effs res where run: "HandleMessage rt s ctx msg = (effs, Ret res)"
    and bal: "balanced rt s msg effs res"
    using HandleMessage_balanced [OF assms(1)] by blast
  obtain wfm where wfm: "s_wireFormat s = Some wfm"
    using assms(1) by (auto simp: wired_def)
  have "\<nexists>e. findSubscription rt s (pub_Topic msg) = Inl e"
    using assms(2) by (auto simp: findSubscription_Inl_iff)
  note unmatched = this
  from assms(1) wfm have "res \<noteq> Some (NoSubscriptionMatched u)"
  proof (cases rule: HandleMessage_cases [of s wfm msg rt ctx])
    case (Delivered sub v flds topic)
    obtain ev where "s_subscriber s = Some ev"
      using assms(1) by (auto simp: wired_def)
    then have "outcome (HandleMessage rt s ctx msg) \<noteq> Ret (Some (NoSubscriptionMatched u))"
      unfolding Delivered(6) by (simp add: deliver_result split: option.splits)
    with run show ?thesis by simp
  qed (use run unmatched in auto)
  then show ?thesis
    by (cases lg) (auto simp: subscriberHandler_def run split: option.splits)
qed

section \<open>What the callbacks do\<close>

text \<open>
  The effects of a connection coming up, in order. The hook runs after the subscriptions and
  the metrics, and before \<open>Start\<close> is released.
\<close>

definition up_effects ::
  "('c, 'm, 'e) client \<Rightarrow> bool \<Rightarrow> 'c \<Rightarrow> ('c, 'e) manager \<Rightarrow> ('c, 'm, 'e) client_effect list" where
  "up_effects c first ctx cm =
     (if buildSubscribeOptions c = [] then []
      else SubscribeCall ctx (buildSubscribeOptions c)
           # (case mgr_Subscribe cm ctx (buildSubscribeOptions c) of
                None \<Rightarrow> [] | Some e \<Rightarrow> [LogSubscribeFailed e]))
     @ map ClientMeasure (CM_SetConnected (c_metrics c) True)
     @ (if first then [] else map ClientMeasure (CM_IncrReconnects (c_metrics c)))
     @ (case OnConnect (c_cfg c) of None \<Rightarrow> [] | Some hook \<Rightarrow> [ConnectHook hook ctx])
     @ (if first then [StartReadyClosed] else [])"

definition wire_publishers ::
  "('c, 'e) manager \<Rightarrow> ('c, 'm, 'e) publisher list \<Rightarrow> ('c, 'm, 'e) publisher list" where
  "wire_publishers cm ps = map (\<lambda>p. SetPublishFunc p (Some (mgr_Publish cm))) ps"

lemma subscribeAll_Ret:
  "c_logger c \<noteq> None \<Longrightarrow> outcome (subscribeAll c ctx cm) = Ret ()
    \<and> effects (subscribeAll c ctx cm) =
     (if buildSubscribeOptions c = [] then []
      else SubscribeCall ctx (buildSubscribeOptions c)
           # (case mgr_Subscribe cm ctx (buildSubscribeOptions c) of
                None \<Rightarrow> [] | Some e \<Rightarrow> [LogSubscribeFailed e]))"
  by (auto simp: subscribeAll_def Let_def split: option.splits)

lemma seq_effects_outcome:
  "outcome m = Ret a \<Longrightarrow> seq m k = (effects m @ fst (k a), snd (k a))"
  by (cases m) simp

lemma OnConnectionUp_eq:
  assumes "c_logger c \<noteq> None" "r_firstConn r \<Longrightarrow> \<not> r_readyClosed r"
  shows "OnConnectionUp c r ctx cm =
    (up_effects c (r_firstConn r) ctx cm,
     Ret (c\<lparr>c_connected := True,
            c_publishers := (if r_firstConn r then wire_publishers cm (c_publishers c)
                             else c_publishers c)\<rparr>,
          r\<lparr>r_router := resetAliases (r_router r), r_limiter := limiter_connected (r_limiter r),
            r_readyClosed := r_readyClosed r \<or> r_firstConn r, r_firstConn := False\<rparr>))"
  using subscribeAll_Ret [OF assms(1), of ctx cm] assms(2)
  by (cases "r_firstConn r")
     (auto simp: OnConnectionUp_def established_def Let_def seq_effects_outcome up_effects_def setConnected_def
       closeReady_def wire_publishers_def ret_def split: option.split)

text \<open>
  The client that the hook of a connection finds: it says that it is connected, and its
  publishers are as they were before, on the first connection not connected to anything.
\<close>

lemma hook_runs_before_wiring:
  assumes "outcome (established c r ctx cm) = Ret (c', r')"
  shows "c_connected c' \<and> c_publishers c' = c_publishers c \<and> r_firstConn r' = r_firstConn r"
proof (cases "outcome (subscribeAll c ctx cm)")
  case (Ret u)
  with assms show ?thesis
    by (auto simp: established_def Let_def seq_effects_outcome setConnected_def split: if_splits)
next
  case (Panic q)
  with assms show ?thesis
    by (cases "subscribeAll c ctx cm") (simp add: established_def Let_def)
qed

lemma OnConnectionDown_eq:
  "OnConnectionDown c r ctx =
    (map ClientMeasure (CM_SetConnected (c_metrics c) False)
       @ (case OnDisconnect (c_cfg c) of None \<Rightarrow> [] | Some hook \<Rightarrow> [DisconnectHook hook ctx]),
     Ret (True, c\<lparr>c_connected := False\<rparr>, r\<lparr>r_router := resetAliases (r_router r)\<rparr>))"
  by (auto simp: OnConnectionDown_def Let_def setConnected_def ret_def split: option.split)

section \<open>The keep-alive interval\<close>

text \<open>C38: the keep-alive interval given to the broker. A duration that is zero or negative is sent
  as 0; a positive one below \<open>65536\<close> seconds is sent as its whole seconds, without wrapping; and
  one of \<open>65536\<close> seconds or more is sent as whatever Go's conversion of a float out of the range
  of \<open>uint16\<close> gives, which the language leaves open (\<open>out_of_range\<close>). So among the positive
  durations below \<open>65536\<close> seconds, exactly those below one second become 0, which turns
  keep-alive off.\<close>

theorem keepAliveSecs_bounds:
  "uint (keepAliveSecs out_of_range d) =
     (if sint d \<le> 0 then 0
      else if sint d < 65536 * 1000000000 then sint d div 1000000000
      else uint (out_of_range d))
   \<and> {d. 0 < sint d \<and> sint d < 65536 * 1000000000 \<and> keepAliveSecs out_of_range d = 0}
     = {d. 0 < sint d \<and> sint d < 1000000000}"
proof -
  have secs: "uint (keepAliveSecs out_of_range d) =
     (if sint d \<le> 0 then 0
      else if sint d < 65536 * 1000000000 then sint d div 1000000000
      else uint (out_of_range d))" for d
  proof (cases "0 < sint d")
    case True
    then have "uint d = sint d"
      using sint_less [of d] by (simp add: uint_sint take_bit_int_eq_self)
    with True show ?thesis
      by (auto simp: keepAliveSecs_def Let_def word_sless_alt uint_word_of_int)
  qed (simp add: keepAliveSecs_def word_sless_alt)
  then show ?thesis
    by (auto simp: uint_0_iff [symmetric] secs)
qed

end
