(* ===== verification/Lifecycle.thy ===== *)
theory Lifecycle
  imports Client
begin

text \<open>
  The life of a started client as a state machine. Once \<open>Start\<close> has created its run, anything
  may happen next: a connection comes up or goes down, an attempt fails, a packet arrives,
  \<open>Start\<close> leaves its \<open>select\<close>, somebody calls \<open>Stop\<close>, the context that the caller gave to \<open>Start\<close>
  ends, or autopaho's connection manager does (the channel of its \<open>Done\<close> closes). Nothing is assumed about the order in which
  autopaho calls back. The state keeps the history of events and effects, over which the
  specifications are written.
\<close>

section \<open>Events\<close>

datatype ('c, 'e) event =
    ConnectionUp "('c, 'e) manager"
  | ConnectionDown
  | AttemptFailed 'e
  | PacketIn packet
  | StartReturns "('c, 'e) manager" "'e selected"
  | StopCall 'c
  | ContextEnds 'e
  | ManagerEnds

datatype 'e start_state = Waiting | Started | StartFailed "'e start_error"

record ('c, 'm, 'e) life =
  l_client :: "('c, 'm, 'e) client"
  l_run :: "('c, 'm, 'e) run"
  l_start :: "'e start_state"
  l_effects :: "('c, 'm, 'e) client_effect list"
  l_events :: "('c, 'e) event list"

fun life_event ::
  "'c runtime \<Rightarrow> (packet \<Rightarrow> publish outcome) \<Rightarrow> 'c \<Rightarrow> ('c, 'm, 'e) life \<Rightarrow> ('c, 'e) event
    \<Rightarrow> ('c, 'm, 'e, ('c, 'm, 'e) life) client_comp" where
  "life_event rt fp ctx s (ConnectionUp cm) =
     seq (OnConnectionUp (l_client s) (l_run s) ctx cm) (\<lambda>(c, r).
       ret (s\<lparr>l_client := c, l_run := r\<rparr>))"
| "life_event rt fp ctx s ConnectionDown =
     seq (OnConnectionDown (l_client s) (l_run s) ctx) (\<lambda>(_, c, r).
       ret (s\<lparr>l_client := c, l_run := r\<rparr>))"
| "life_event rt fp ctx s (AttemptFailed e) =
     seq (OnConnectError (l_client s) (l_run s) e) (\<lambda>r. ret (s\<lparr>l_run := r\<rparr>))"
| "life_event rt fp ctx s (PacketIn pb) =
     seq (routePacket rt fp (l_run s) pb) (\<lambda>r. ret (s\<lparr>l_run := r\<rparr>))"
| "life_event rt fp ctx s (StartReturns cm sel) =
     seq (finishStart (l_client s) cm sel) (\<lambda>(err, c).
       ret (s\<lparr>l_client := c,
              l_start := (case err of None \<Rightarrow> Started | Some e \<Rightarrow> StartFailed e)\<rparr>))"
| "life_event rt fp ctx s (StopCall x) =
     seq (Stop (l_client s) x) (\<lambda>(_, c). ret (s\<lparr>l_client := c\<rparr>))"
| "life_event rt fp ctx s (ContextEnds e) = ret s"
| "life_event rt fp ctx s ManagerEnds = ret s"

text \<open>
  The end of the caller's context, with the error that its \<open>Err\<close> answers from then on, and the
  end of the manager, in a history whose earliest event is first.
\<close>

fun ctx_error :: "('c, 'e) event list \<Rightarrow> 'e option" where
  "ctx_error [] = None"
| "ctx_error (ContextEnds x # es) = Some x"
| "ctx_error (e # es) = ctx_error es"

fun manager_ended :: "('c, 'e) event list \<Rightarrow> bool" where
  "manager_ended [] = False"
| "manager_ended (ManagerEnds # es) = True"
| "manager_ended (e # es) = manager_ended es"

text \<open>
  \<open>Start\<close> leaves its \<open>select\<close> once, and through a case only when that is ready: \<open>startReady\<close> is
  closed, or the caller's context has ended, or the manager has.
\<close>

fun enabled :: "('c, 'm, 'e) life \<Rightarrow> ('c, 'e) event \<Rightarrow> bool" where
  "enabled s (StartReturns cm sel) \<longleftrightarrow>
     l_start s = Waiting \<and>
     (case sel of
        StartReady \<Rightarrow> r_readyClosed (l_run s)
      | ContextDone e \<Rightarrow> ctx_error (l_events s) = Some e
      | ManagerDone \<Rightarrow> manager_ended (l_events s))"
| "enabled s _ = True"

text \<open>The context of the run is over: its cancel function was called, or the caller's has ended.\<close>

definition run_over :: "('c, 'm, 'e) life \<Rightarrow> bool" where
  "run_over s \<longleftrightarrow> runCtx_done (ctx_error (l_events s)) (CancelRun \<in> set (l_effects s))"

inductive life_step ::
  "'c runtime \<Rightarrow> (packet \<Rightarrow> publish outcome) \<Rightarrow> 'c \<Rightarrow> ('c, 'm, 'e) life \<Rightarrow> ('c, 'm, 'e) life \<Rightarrow> bool"
  for rt :: "'c runtime" and fp :: "packet \<Rightarrow> publish outcome" and ctx :: 'c where
  Event: "enabled s e \<Longrightarrow> life_event rt fp ctx s e = (fs, Ret s') \<Longrightarrow>
     life_step rt fp ctx s (s'\<lparr>l_effects := l_effects s @ fs, l_events := l_events s @ [e]\<rparr>)"

inductive_cases life_stepE: "life_step rt fp ctx s t"

inductive_simps life_step_iff: "life_step rt fp ctx s t"

text \<open>The state when \<open>startRun\<close> has returned.\<close>

definition begin_life :: "'c runtime \<Rightarrow> ('c, 'm, 'e) client \<Rightarrow> 'c \<Rightarrow> ('c, 'm, 'e) life" where
  "begin_life rt c ctx = \<lparr>l_client = c,
     l_run = \<lparr>r_router = buildRouter rt c ctx,
       r_limiter = Some (new_limiter (MaxReconnectAttempts (c_cfg c)) (c_logger c)),
       r_readyClosed = False, r_firstConn = True\<rparr>,
     l_start = Waiting, l_effects = [], l_events = []\<rparr>"

lemma begin_life_startRun:
  "c_cm c = None \<Longrightarrow> startRun rt c ctx None = ret (Inr (l_run (begin_life rt c ctx)))"
  by (simp add: startRun_def startGuard_def createRun_def begin_life_def Let_def)

section \<open>Reading a history\<close>

text \<open>What the history says to the router and to the limiter, and the managers that came up.\<close>

definition managers :: "('c, 'e) event list \<Rightarrow> ('c, 'e) manager list" where
  "managers evs = concat (map (\<lambda>e. case e of ConnectionUp cm \<Rightarrow> [cm] | _ \<Rightarrow> []) evs)"

definition link_events :: "('c, 'e) event list \<Rightarrow> link_event list" where
  "link_events evs = concat (map (\<lambda>e. case e of
     ConnectionUp cm \<Rightarrow> [Reset] | ConnectionDown \<Rightarrow> [Reset] | PacketIn pb \<Rightarrow> [Inbound pb] | _ \<Rightarrow> []) evs)"

definition attempts :: "('c, 'e) event list \<Rightarrow> attempt list" where
  "attempts evs = concat (map (\<lambda>e. case e of
     ConnectionUp cm \<Rightarrow> [Up] | AttemptFailed x \<Rightarrow> [Fail] | _ \<Rightarrow> []) evs)"

text \<open>Latest event first: whether \<open>Start\<close> had returned, whether a started client was stopped, and
  whether the connection should be reported as up.\<close>

definition started :: "('c, 'e) event list \<Rightarrow> bool" where
  "started es \<longleftrightarrow> (\<exists>e \<in> set es. case e of StartReturns cm sel \<Rightarrow> sel = StartReady | _ \<Rightarrow> False)"

fun stopped :: "('c, 'e) event list \<Rightarrow> bool" where
  "stopped [] = False"
| "stopped (StopCall x # es) = (started es \<or> stopped es)"
| "stopped (e # es) = stopped es"

fun link_up :: "('c, 'e) event list \<Rightarrow> bool" where
  "link_up [] = False"
| "link_up (ConnectionUp cm # es) = True"
| "link_up (ConnectionDown # es) = False"
| "link_up (StopCall x # es) = (\<not> started es \<and> link_up es)"
| "link_up (e # es) = link_up es"

lemma history_simps [simp]:
  "managers [] = []" "link_events [] = []" "attempts [] = []" "started [] = False"
  "managers (xs @ ys) = managers xs @ managers ys"
  "link_events (xs @ ys) = link_events xs @ link_events ys"
  "attempts (xs @ ys) = attempts xs @ attempts ys"
  "managers [e] = (case e of ConnectionUp cm \<Rightarrow> [cm] | _ \<Rightarrow> [])"
  "link_events [e] = (case e of ConnectionUp cm \<Rightarrow> [Reset] | ConnectionDown \<Rightarrow> [Reset]
     | PacketIn pb \<Rightarrow> [Inbound pb] | _ \<Rightarrow> [])"
  "attempts [e] = (case e of ConnectionUp cm \<Rightarrow> [Up] | AttemptFailed x \<Rightarrow> [Fail] | _ \<Rightarrow> [])"
  "started (e # es) = ((case e of StartReturns cm sel \<Rightarrow> sel = StartReady | _ \<Rightarrow> False) \<or> started es)"
  by (simp_all add: managers_def link_events_def attempts_def started_def)

lemma ctx_error_snoc [simp]:
  "ctx_error (xs @ [e]) =
     (case e of ContextEnds x \<Rightarrow> if ctx_error xs = None then Some x else ctx_error xs
      | _ \<Rightarrow> ctx_error xs)"
  by (induction xs rule: ctx_error.induct) (auto split: event.splits)

lemma manager_ended_snoc [simp]:
  "manager_ended (xs @ [e]) \<longleftrightarrow> (case e of ManagerEnds \<Rightarrow> True | _ \<Rightarrow> manager_ended xs)"
  by (induction xs rule: manager_ended.induct) (simp_all split: event.split)

text \<open>A failed \<open>Start\<close> has failed for a reason that the history shows.\<close>

definition failed_for_reason :: "'e start_state \<Rightarrow> ('c, 'e) event list \<Rightarrow> bool" where
  "failed_for_reason st evs \<longleftrightarrow>
     (case st of
        StartFailed (CancelledWaiting e) \<Rightarrow> ctx_error evs = Some e
      | StartFailed ManagerTerminated \<Rightarrow> manager_ended evs
      | StartFailed _ \<Rightarrow> False
      | _ \<Rightarrow> True)"

lemma failed_for_reason_simps [simp]:
  "failed_for_reason Waiting evs" "failed_for_reason Started evs"
  "failed_for_reason (StartFailed (CancelledWaiting e)) evs \<longleftrightarrow> ctx_error evs = Some e"
  "failed_for_reason (StartFailed ManagerTerminated) evs \<longleftrightarrow> manager_ended evs"
  by (simp_all add: failed_for_reason_def)

lemma failed_for_reason_grows [simp]:
  "failed_for_reason st evs \<Longrightarrow> failed_for_reason st (evs @ [e])"
  by (auto simp: failed_for_reason_def split: start_state.splits start_error.splits event.split)

lemma managers_Cons: "managers (e # es) = (case e of ConnectionUp cm \<Rightarrow> [cm] | _ \<Rightarrow> []) @ managers es"
  by (simp add: managers_def)

lemma managers_rev [simp]: "managers (rev es) = rev (managers es)"
  by (induction es) (simp_all add: managers_Cons split: event.split)

text \<open>What the effects say: the subscriptions sent to the broker and the measurements.\<close>

definition subscribe_calls ::
  "('c, 'm, 'e) client_effect list \<Rightarrow> ('c \<times> subscribe_options list) list" where
  "subscribe_calls fs = concat (map (\<lambda>f. case f of SubscribeCall ctx opts \<Rightarrow> [(ctx, opts)] | _ \<Rightarrow> []) fs)"

definition client_measurements :: "('c, 'm, 'e) client_effect list \<Rightarrow> measurement list" where
  "client_measurements fs = concat (map (\<lambda>f. case f of ClientMeasure m \<Rightarrow> [m] | _ \<Rightarrow> []) fs)"

definition releases :: "('c, 'm, 'e) client_effect list \<Rightarrow> nat" where
  "releases fs = length (filter (\<lambda>f. f = StartReadyClosed) fs)"

lemma effect_simps [simp]:
  "subscribe_calls [] = []" "client_measurements [] = []" "releases [] = 0"
  "subscribe_calls (f # fs) =
     (case f of SubscribeCall ctx opts \<Rightarrow> [(ctx, opts)] | _ \<Rightarrow> []) @ subscribe_calls fs"
  "client_measurements (f # fs) =
     (case f of ClientMeasure m \<Rightarrow> [m] | _ \<Rightarrow> []) @ client_measurements fs"
  "releases (f # fs) = (if f = StartReadyClosed then 1 else 0) + releases fs"
  "subscribe_calls (fs @ gs) = subscribe_calls fs @ subscribe_calls gs"
  "client_measurements (fs @ gs) = client_measurements fs @ client_measurements gs"
  "releases (fs @ gs) = releases fs + releases gs"
  by (simp_all add: subscribe_calls_def client_measurements_def releases_def)

lemma effect_measures [simp]:
  "subscribe_calls (map ClientMeasure ms) = []" "client_measurements (map ClientMeasure ms) = ms"
  "releases (map ClientMeasure ms) = 0"
  by (induction ms) simp_all

section \<open>Packets\<close>

definition is_delivery :: "('c, 'm, 'e) client_effect \<Rightarrow> bool" where
  "is_delivery f \<longleftrightarrow> (case f of SubscriberEffect x \<Rightarrow> True | LogHandleError t e \<Rightarrow> True | _ \<Rightarrow> False)"

lemma deliveries_only:
  "\<forall>f \<in> set fs. is_delivery f \<Longrightarrow>
     subscribe_calls fs = [] \<and> client_measurements fs = [] \<and> releases fs = 0 \<and> CancelRun \<notin> set fs"
  by (induction fs) (auto simp: is_delivery_def split: client_effect.splits)

lemma subscriberHandler_deliveries:
  "\<forall>f \<in> set (effects (subscriberHandler rt lg ctx s msg)). is_delivery f"
  by (cases "HandleMessage rt s ctx msg"; cases lg; cases "outcome (HandleMessage rt s ctx msg)")
     (auto simp: subscriberHandler_def is_delivery_def split: option.splits)

text \<open>A router with a client's entries: which topic a packet has, and whom it then reaches.\<close>

definition deliveries ::
  "'c runtime \<Rightarrow> ('c, 'm, 'e) client \<Rightarrow> 'c \<Rightarrow> packet \<Rightarrow> string \<Rightarrow> ('c, 'm, 'e) client_effect list" where
  "deliveries rt c ctx pb topic =
     concat (map (\<lambda>sub. effects (subscriberHandler rt (c_logger c) ctx sub (message_of pb topic)))
       (filter (\<lambda>sub. \<exists>p \<in> set (MQTTPatterns sub). Matches rt p topic) (c_subscribers c)))"

lemma deliveries_are_deliveries: "\<forall>f \<in> set (deliveries rt c ctx pb topic). is_delivery f"
  by (auto simp: deliveries_def intro: bspec [OF subscriberHandler_deliveries])

text \<open>Routing and dispatch agree: nothing that is delivered is then logged as unmatched.\<close>

lemma deliveries_matched:
  assumes "well_built c"
  shows "LogHandleError t (NoSubscriptionMatched u) \<notin> set (deliveries rt c ctx pb topic)"
proof -
  have "LogHandleError t (NoSubscriptionMatched u)
      \<notin> set (effects (subscriberHandler rt (c_logger c) ctx sub (message_of pb topic)))"
    if "sub \<in> set (c_subscribers c)" "\<exists>p \<in> set (MQTTPatterns sub). Matches rt p topic" for sub
    using assms that by (intro routed_is_matched) (simp_all add: well_built_def)
  then show ?thesis by (auto simp: deliveries_def)
qed

definition router_ok ::
  "'c runtime \<Rightarrow> ('c, 'm, 'e) client \<Rightarrow> 'c \<Rightarrow> ('c, 'm, 'e) client_effect router \<Rightarrow> bool" where
  "router_ok rt c ctx r \<longleftrightarrow>
     well_formed r \<and> entries r = client_entries rt c ctx \<and> debug r = Some (\<lambda>_. [])"

lemma router_ok_reset [simp]: "router_ok rt c ctx (resetAliases r) = router_ok rt c ctx r"
  by (simp add: router_ok_def)

lemma client_Route:
  assumes "converts fp" "well_built c" "router_ok rt c ctx r"
  shows "Route rt fp r pb =
    (if snd (resolved r pb) = '''' then [] else deliveries rt c ctx pb (snd (resolved r pb)),
     Ret (fst (resolved r pb)))
    \<and> router_ok rt c ctx (fst (resolved r pb))
    \<and> link_step rt fp r (Inbound pb) = fst (resolved r pb)"
proof -
  have ret: "\<forall>e \<in> set (entries r). returns e"
    using client_entries_return [OF assms(2)] assms(3) by (simp add: router_ok_def)
  have dispatched: "concat (map (\<lambda>e. effects (handler e (message_of pb t)))
      (filter (\<lambda>e. entry_matches rt e t) (entries r))) = deliveries rt c ctx pb t" for t
    using assms(3)
    by (simp add: router_ok_def client_entries_def deliveries_def filter_map comp_def entry_matches_iff)
  show ?thesis
    using Route_returns [OF assms(1) _ ret, of pb "fst (resolved r pb)" "snd (resolved r pb)" rt]
      link_step_Inbound [OF assms(1) _ ret, of rt pb] assms(3) dispatched
    by (auto simp: router_ok_def)
qed

section \<open>The limiter inside the client\<close>

lemma limiter_step_Ret:
  "lim_logger l = Some lg \<Longrightarrow>
     \<exists>fs l'. limiter_step (Some l) a = (fs, Ret (Some l')) \<and> lim_logger l' = Some lg"
  by (cases a) (simp_all add: limiter_connected_def limiter_failed_def Let_def ret_def)

definition limiter_state ::
  "('c, 'm, 'e) client \<Rightarrow> attempt list \<Rightarrow> limiter option \<Rightarrow> bool \<Rightarrow> bool" where
  "limiter_state c as l gave_up \<longleftrightarrow>
     (\<exists>fs r. limiter_run (Some (new_limiter (MaxReconnectAttempts (c_cfg c)) (c_logger c))) as = (fs, Ret l)
       \<and> l = Some r \<and> lim_logger r = c_logger c \<and> (gave_up \<longleftrightarrow> StopRun \<in> set fs))"

lemma limiter_state_start:
  "limiter_state c [] (Some (new_limiter (MaxReconnectAttempts (c_cfg c)) (c_logger c))) False"
  by (auto simp: limiter_state_def ret_def) (simp add: new_limiter_def)

lemma limiter_state_step:
  assumes "limiter_state c as l g" "c_logger c \<noteq> None"
  obtains fs l' where "limiter_step l a = (fs, Ret l')"
    "limiter_state c (as @ [a]) l' (g \<or> StopRun \<in> set fs)"
proof -
  obtain gs r lg where run: "limiter_run (Some (new_limiter (MaxReconnectAttempts (c_cfg c)) (c_logger c))) as = (gs, Ret l)"
    and r: "l = Some r" "lim_logger r = Some lg" "c_logger c = Some lg" "g \<longleftrightarrow> StopRun \<in> set gs"
    using assms by (auto simp: limiter_state_def)
  obtain fs r' where "limiter_step l a = (fs, Ret (Some r'))" "lim_logger r' = Some lg"
    using limiter_step_Ret [OF r(2), of a] r(1) by auto
  then show thesis
    using run r that by (auto simp: limiter_state_def limiter_run_snoc)
qed

lemma limiter_line_CancelRun [simp]: "limiter_line f = CancelRun \<longleftrightarrow> f = StopRun"
  "CancelRun = limiter_line f \<longleftrightarrow> f = StopRun"
  by (cases f; simp)+

lemma CancelRun_limiter [simp]: "CancelRun \<in> limiter_line ` set fs \<longleftrightarrow> StopRun \<in> set fs"
  by force

lemma limiter_lines [simp]:
  "subscribe_calls (map limiter_line fs) = []" "client_measurements (map limiter_line fs) = []"
  "releases (map limiter_line fs) = 0"
proof (induction fs)
  case (Cons f fs)
  { case 1 with Cons show ?case by (cases f) simp_all }
  { case 2 with Cons show ?case by (cases f) simp_all }
  { case 3 with Cons show ?case by (cases f) simp_all }
qed simp_all

section \<open>The invariant\<close>

text \<open>The measurements a history calls for, latest event first.\<close>

fun connection_book :: "client_metrics option \<Rightarrow> ('c, 'e) event list \<Rightarrow> measurement list" where
  "connection_book m [] = []"
| "connection_book m (ConnectionUp cm # es) =
     connection_book m es @ CM_SetConnected m True
       @ (if managers es = [] then [] else CM_IncrReconnects m)"
| "connection_book m (ConnectionDown # es) = connection_book m es @ CM_SetConnected m False"
| "connection_book m (e # es) = connection_book m es"

text \<open>What the callbacks never change.\<close>

definition same_setup :: "('c, 'm, 'e) client \<Rightarrow> ('c, 'm, 'e) client \<Rightarrow> bool" where
  "same_setup c0 c \<longleftrightarrow> c_cfg c = c_cfg c0 \<and> c_subscribers c = c_subscribers c0
     \<and> c_metrics c = c_metrics c0 \<and> c_logger c = c_logger c0"

text \<open>Publishers are wired by the first connection, and \<open>Start\<close> is released by it.\<close>

definition wiring_inv :: "('c, 'm, 'e) client \<Rightarrow> ('c, 'm, 'e) life \<Rightarrow> bool" where
  "wiring_inv c0 s \<longleftrightarrow>
     (let ups = managers (l_events s)
      in c_publishers (l_client s) =
           (case ups of [] \<Rightarrow> c_publishers c0 | cm # _ \<Rightarrow> wire_publishers cm (c_publishers c0))
         \<and> (r_firstConn (l_run s) \<longleftrightarrow> ups = []) \<and> (r_readyClosed (l_run s) \<longleftrightarrow> ups \<noteq> [])
         \<and> releases (l_effects s) = (if ups = [] then 0 else 1)
         \<and> (l_start s = Started \<longrightarrow> ups \<noteq> []))"

definition start_inv :: "('c, 'm, 'e) life \<Rightarrow> bool" where
  "start_inv s \<longleftrightarrow>
     (l_start s = Started \<longleftrightarrow> started (rev (l_events s)))
     \<and> (c_cm (l_client s) \<noteq> None \<longleftrightarrow> l_start s = Started)
     \<and> (c_stopRun (l_client s) \<longleftrightarrow> l_start s = Started)
     \<and> (c_connected (l_client s) \<longleftrightarrow> link_up (rev (l_events s)))
     \<and> failed_for_reason (l_start s) (l_events s)"

definition router_inv ::
  "'c runtime \<Rightarrow> (packet \<Rightarrow> publish outcome) \<Rightarrow> 'c \<Rightarrow> ('c, 'm, 'e) client \<Rightarrow> ('c, 'm, 'e) life \<Rightarrow> bool" where
  "router_inv rt fp ctx c0 s \<longleftrightarrow> router_ok rt c0 ctx (r_router (l_run s))
     \<and> r_router (l_run s) = link_run rt fp (buildRouter rt c0 ctx) (link_events (l_events s))"

definition books_inv :: "'c \<Rightarrow> ('c, 'm, 'e) client \<Rightarrow> ('c, 'm, 'e) life \<Rightarrow> bool" where
  "books_inv ctx c0 s \<longleftrightarrow>
     subscribe_calls (l_effects s) =
       (if buildSubscribeOptions c0 = [] then []
        else replicate (length (managers (l_events s))) (ctx, buildSubscribeOptions c0))
     \<and> client_measurements (l_effects s) = connection_book (c_metrics c0) (rev (l_events s))"

definition limiter_inv :: "('c, 'm, 'e) client \<Rightarrow> ('c, 'm, 'e) life \<Rightarrow> bool" where
  "limiter_inv c0 s \<longleftrightarrow>
     (\<exists>g. limiter_state c0 (attempts (l_events s)) (r_limiter (l_run s)) g
       \<and> (CancelRun \<in> set (l_effects s) \<longleftrightarrow>
            g \<or> (\<exists>e. l_start s = StartFailed e) \<or> stopped (rev (l_events s))))"

definition life_inv ::
  "'c runtime \<Rightarrow> (packet \<Rightarrow> publish outcome) \<Rightarrow> 'c \<Rightarrow> ('c, 'm, 'e) client \<Rightarrow> ('c, 'm, 'e) life \<Rightarrow> bool" where
  "life_inv rt fp ctx c0 s \<longleftrightarrow> same_setup c0 (l_client s) \<and> wiring_inv c0 s \<and> start_inv s
     \<and> router_inv rt fp ctx c0 s \<and> books_inv ctx c0 s \<and> limiter_inv c0 s"

lemmas inv_defs = same_setup_def wiring_inv_def start_inv_def router_inv_def books_inv_def

lemma begin_life_inv: "well_built c0 \<Longrightarrow> life_inv rt fp ctx c0 (begin_life rt c0 ctx)"
  using limiter_state_start [of c0]
  by (auto simp: life_inv_def inv_defs limiter_inv_def begin_life_def well_built_def router_ok_def
      buildRouter_eq newSubscriberRouter_def well_formed_def)

text \<open>What an event adds to the history and to the effects.\<close>

definition recorded ::
  "('c, 'm, 'e) life \<Rightarrow> ('c, 'e) event \<Rightarrow> ('c, 'm, 'e) client_effect list \<Rightarrow> ('c, 'm, 'e) life
    \<Rightarrow> ('c, 'm, 'e) life" where
  "recorded s e fs s' = s'\<lparr>l_effects := l_effects s @ fs, l_events := l_events s @ [e]\<rparr>"

lemma same_setup_options: "same_setup c0 c \<Longrightarrow> buildSubscribeOptions c = buildSubscribeOptions c0"
  by (simp add: same_setup_def buildSubscribeOptions_def)

lemma up_effects_simps:
  "subscribe_calls (up_effects c first ctx cm) =
     (if buildSubscribeOptions c = [] then [] else [(ctx, buildSubscribeOptions c)])"
  "client_measurements (up_effects c first ctx cm) =
     CM_SetConnected (c_metrics c) True @ (if first then [] else CM_IncrReconnects (c_metrics c))"
  "releases (up_effects c first ctx cm) = (if first then 1 else 0)"
  "CancelRun \<notin> set (up_effects c first ctx cm)"
  by (auto simp: up_effects_def split: option.split)

lemma life_invD:
  assumes "life_inv rt fp ctx c0 s"
  shows "same_setup c0 (l_client s)" "wiring_inv c0 s" "start_inv s" "router_inv rt fp ctx c0 s"
    "books_inv ctx c0 s" "limiter_inv c0 s"
  using assms by (simp_all add: life_inv_def)

text \<open>One obligation per part of the invariant, so that each is a small goal.\<close>

lemma life_inv_recorded:
  assumes "same_setup c0 (l_client (recorded s e fs s'))" "wiring_inv c0 (recorded s e fs s')"
    "start_inv (recorded s e fs s')" "router_inv rt fp ctx c0 (recorded s e fs s')"
    "books_inv ctx c0 (recorded s e fs s')" "limiter_inv c0 (recorded s e fs s')"
    and "life_event rt fp ctx s e = (fs, Ret s')"
  shows "\<exists>fs s'. life_event rt fp ctx s e = (fs, Ret s') \<and> life_inv rt fp ctx c0 (recorded s e fs s')"
  using assms by (auto simp: life_inv_def)

lemma recorded_simps [simp]:
  "l_client (recorded s e fs s') = l_client s'" "l_run (recorded s e fs s') = l_run s'"
  "l_start (recorded s e fs s') = l_start s'" "l_effects (recorded s e fs s') = l_effects s @ fs"
  "l_events (recorded s e fs s') = l_events s @ [e]"
  by (simp_all add: recorded_def)

lemma limiter_invE:
  assumes "limiter_inv c0 s" "c_logger c0 \<noteq> None"
  obtains g fs l where "limiter_step (r_limiter (l_run s)) a = (fs, Ret l)"
    "limiter_state c0 (attempts (l_events s) @ [a]) l (g \<or> StopRun \<in> set fs)"
    "CancelRun \<in> set (l_effects s) \<longleftrightarrow>
       g \<or> (\<exists>e. l_start s = StartFailed e) \<or> stopped (rev (l_events s))"
  using assms limiter_state_step unfolding limiter_inv_def by metis

lemma router_inv_recorded:
  assumes "router_inv rt fp ctx c0 s"
    and "r_router (l_run s') = (if link_events [e] = [] then r_router (l_run s) else resetAliases (r_router (l_run s)))
      \<and> link_events [e] \<in> {[], [Reset]}"
  shows "router_inv rt fp ctx c0 (recorded s e fs s')"
  using assms by (auto simp: router_inv_def simp del: history_simps(9)) 

text \<open>What each event does, in one equation.\<close>

definition down_effects ::
  "('c, 'm, 'e) client \<Rightarrow> 'c \<Rightarrow> ('c, 'm, 'e) client_effect list" where
  "down_effects c ctx = map ClientMeasure (CM_SetConnected (c_metrics c) False)
     @ (case OnDisconnect (c_cfg c) of None \<Rightarrow> [] | Some hook \<Rightarrow> [DisconnectHook hook ctx])"

lemma event_ConnectionUp:
  assumes "c_logger (l_client s) \<noteq> None" "r_firstConn (l_run s) \<Longrightarrow> \<not> r_readyClosed (l_run s)"
  shows "life_event rt fp ctx s (ConnectionUp cm) =
    (up_effects (l_client s) (r_firstConn (l_run s)) ctx cm,
     Ret (s\<lparr>l_client := (l_client s)\<lparr>c_connected := True,
            c_publishers := (if r_firstConn (l_run s) then wire_publishers cm (c_publishers (l_client s))
                             else c_publishers (l_client s))\<rparr>,
          l_run := (l_run s)\<lparr>r_router := resetAliases (r_router (l_run s)),
            r_limiter := limiter_connected (r_limiter (l_run s)),
            r_readyClosed := r_readyClosed (l_run s) \<or> r_firstConn (l_run s), r_firstConn := False\<rparr>\<rparr>))"
  by (simp add: OnConnectionUp_eq [OF assms])

lemma event_ConnectionDown:
  "life_event rt fp ctx s ConnectionDown = (down_effects (l_client s) ctx,
     Ret (s\<lparr>l_client := (l_client s)\<lparr>c_connected := False\<rparr>,
            l_run := (l_run s)\<lparr>r_router := resetAliases (r_router (l_run s))\<rparr>\<rparr>))"
  by (simp add: OnConnectionDown_eq down_effects_def)

lemma event_AttemptFailed:
  assumes "c_logger (l_client s) \<noteq> None" "limiter_step (r_limiter (l_run s)) Fail = (fs, Ret l)"
  shows "life_event rt fp ctx s (AttemptFailed x) =
    (LogAttemptFailed x # map limiter_line fs, Ret (s\<lparr>l_run := (l_run s)\<lparr>r_limiter := l\<rparr>\<rparr>))"
  using assms by (auto simp: OnConnectError_def)

lemma event_PacketIn:
  assumes "converts fp" "well_built c0" "router_ok rt c0 ctx (r_router (l_run s))"
  shows "life_event rt fp ctx s (PacketIn pb) =
    (let (r, topic) = resolved (r_router (l_run s)) pb
     in (if topic = '''' then [] else deliveries rt c0 ctx pb topic,
         Ret (s\<lparr>l_run := (l_run s)\<lparr>r_router := r\<rparr>\<rparr>)))"
  using client_Route [OF assms, of pb] by (simp add: routePacket_def case_prod_beta)

lemma event_StartReturns:
  "life_event rt fp ctx s (StartReturns cm sel) =
    (if sel = StartReady then [] else [CancelRun],
     Ret (s\<lparr>l_client := (if sel = StartReady then (l_client s)\<lparr>c_cm := Some cm, c_stopRun := True\<rparr>
                          else l_client s),
            l_start := (case sel of StartReady \<Rightarrow> Started
              | ContextDone e \<Rightarrow> StartFailed (CancelledWaiting e)
              | ManagerDone \<Rightarrow> StartFailed ManagerTerminated)\<rparr>))"
  by (cases sel) (simp_all add: ret_def)

lemma event_StopCall:
  assumes "start_inv s"
  shows "life_event rt fp ctx s (StopCall x) =
    (if l_start s = Started then [DisconnectCall x, CancelRun] else [],
     Ret (if l_start s = Started then s\<lparr>l_client := (l_client s)\<lparr>c_connected := False\<rparr>\<rparr> else s))"
  using assms by (auto simp: start_inv_def Stop_def setConnected_def ret_def)

lemmas event_simps = event_ConnectionUp event_ConnectionDown event_AttemptFailed event_StartReturns
  event_StopCall

lemma step_ConnectionUp:
  assumes "well_built c0" "life_inv rt fp ctx c0 s"
  shows "\<exists>fs s'. life_event rt fp ctx s (ConnectionUp cm) = (fs, Ret s')
    \<and> life_inv rt fp ctx c0 (recorded s (ConnectionUp cm) fs s')"
proof -
  note inv = life_invD [OF assms(2)]
  have built: "c_logger c0 \<noteq> None"
    using assms(1) by (simp add: well_built_def)
  have log: "c_logger (l_client s) \<noteq> None" and first: "r_firstConn (l_run s) \<Longrightarrow> \<not> r_readyClosed (l_run s)"
    using inv(1,2) built by (simp_all add: same_setup_def wiring_inv_def Let_def)
  note opts = same_setup_options [OF inv(1)]
  have first_iff: "r_firstConn (l_run s) \<longleftrightarrow> managers (l_events s) = []"
    using inv(2) by (simp add: wiring_inv_def Let_def)
  obtain g fs l where g: "limiter_step (r_limiter (l_run s)) Up = (fs, Ret l)"
    "limiter_state c0 (attempts (l_events s) @ [Up]) l (g \<or> StopRun \<in> set fs)"
    "CancelRun \<in> set (l_effects s) \<longleftrightarrow>
       g \<or> (\<exists>e. l_start s = StartFailed e) \<or> stopped (rev (l_events s))"
    by (rule limiter_invE [OF inv(6) built, where a = Up])
  then have l: "limiter_connected (r_limiter (l_run s)) = l" "fs = []"
    by (simp_all add: ret_def)
  show ?thesis
    by (rule life_inv_recorded [OF _ _ _ _ _ _ event_ConnectionUp [OF log first]])
      (use inv(1) in \<open>simp add: same_setup_def\<close>,
       use inv(2) in \<open>(auto simp: wiring_inv_def Let_def up_effects_simps split: list.splits)[1]\<close>,
       use inv(3) in \<open>simp add: start_inv_def\<close>,
       rule router_inv_recorded [OF inv(4)], simp,
       use inv(1,5) first_iff in \<open>simp add: books_inv_def same_setup_def up_effects_simps opts
         replicate_append_same\<close>,
       use g(2,3) l in \<open>auto simp: limiter_inv_def up_effects_simps\<close>)
qed

lemma step_ConnectionDown:
  assumes "well_built c0" "life_inv rt fp ctx c0 s"
  shows "\<exists>fs s'. life_event rt fp ctx s ConnectionDown = (fs, Ret s')
    \<and> life_inv rt fp ctx c0 (recorded s ConnectionDown fs s')"
proof -
  note inv = life_invD [OF assms(2)]
  let ?c = "l_client s" and ?fs = "down_effects (l_client s) ctx"
  have quiet: "subscribe_calls ?fs = []" "client_measurements ?fs = CM_SetConnected (c_metrics ?c) False"
    "releases ?fs = 0" "CancelRun \<notin> set ?fs"
    by (auto simp: down_effects_def split: option.split)
  show ?thesis
    by (rule life_inv_recorded [OF _ _ _ _ _ _ event_ConnectionDown])
      (use inv(1) in \<open>simp add: same_setup_def\<close>,
       use inv(2) quiet in \<open>simp add: wiring_inv_def Let_def\<close>,
       use inv(3) in \<open>simp add: start_inv_def\<close>,
       rule router_inv_recorded [OF inv(4)], simp,
       use inv(1,5) quiet in \<open>simp add: books_inv_def same_setup_def\<close>,
       use inv(6) quiet(4) in \<open>auto simp: limiter_inv_def split: option.splits\<close>)
qed

lemma step_AttemptFailed:
  assumes "well_built c0" "life_inv rt fp ctx c0 s"
  shows "\<exists>fs s'. life_event rt fp ctx s (AttemptFailed x) = (fs, Ret s')
    \<and> life_inv rt fp ctx c0 (recorded s (AttemptFailed x) fs s')"
proof -
  note inv = life_invD [OF assms(2)]
  have built: "c_logger c0 \<noteq> None"
    using assms(1) by (simp add: well_built_def)
  then have log: "c_logger (l_client s) \<noteq> None"
    using inv(1) by (simp add: same_setup_def)
  obtain g fs l where g: "limiter_step (r_limiter (l_run s)) Fail = (fs, Ret l)"
    "limiter_state c0 (attempts (l_events s) @ [Fail]) l (g \<or> StopRun \<in> set fs)"
    "CancelRun \<in> set (l_effects s) \<longleftrightarrow>
       g \<or> (\<exists>e. l_start s = StartFailed e) \<or> stopped (rev (l_events s))"
    by (rule limiter_invE [OF inv(6) built, where a = Fail])
  show ?thesis
    by (rule life_inv_recorded [OF _ _ _ _ _ _ event_AttemptFailed [OF log g(1)]])
      (use inv(1) in \<open>simp add: same_setup_def\<close>,
       use inv(2) in \<open>simp add: wiring_inv_def Let_def\<close>,
       use inv(3) in \<open>simp add: start_inv_def\<close>,
       rule router_inv_recorded [OF inv(4)], simp,
       use inv(5) in \<open>simp add: books_inv_def\<close>,
       use g(2,3) in \<open>auto simp: limiter_inv_def\<close>)
qed

lemma step_PacketIn:
  assumes "converts fp" "well_built c0" "life_inv rt fp ctx c0 s"
  shows "\<exists>fs s'. life_event rt fp ctx s (PacketIn pb) = (fs, Ret s')
    \<and> life_inv rt fp ctx c0 (recorded s (PacketIn pb) fs s')"
proof -
  note inv = life_invD [OF assms(3)]
  let ?r = "r_router (l_run s)"
  let ?fs = "if snd (resolved ?r pb) = '''' then [] else deliveries rt c0 ctx pb (snd (resolved ?r pb))"
  have ok: "router_ok rt c0 ctx ?r" "?r = link_run rt fp (buildRouter rt c0 ctx) (link_events (l_events s))"
    using inv(4) by (auto simp: router_inv_def)
  note route = client_Route [OF assms(1,2) ok(1), of pb]
  have "\<forall>f \<in> set ?fs. is_delivery f"
    by (simp add: deliveries_are_deliveries)
  then have quiet: "subscribe_calls ?fs = [] \<and> client_measurements ?fs = [] \<and> releases ?fs = 0
      \<and> CancelRun \<notin> set ?fs"
    by (rule deliveries_only)
  show ?thesis
  proof (rule life_inv_recorded)
    show "life_event rt fp ctx s (PacketIn pb) =
        (?fs, Ret (s\<lparr>l_run := (l_run s)\<lparr>r_router := fst (resolved ?r pb)\<rparr>\<rparr>))"
      using event_PacketIn [OF assms(1,2) ok(1), of pb] by (simp add: case_prod_beta Let_def)
    show "router_inv rt fp ctx c0 (recorded s (PacketIn pb) ?fs
        (s\<lparr>l_run := (l_run s)\<lparr>r_router := fst (resolved ?r pb)\<rparr>\<rparr>))"
      using route ok(2) by (simp add: router_inv_def del: link_step.simps)
  qed (use inv(1) in \<open>simp add: same_setup_def\<close>,
       use inv(2) quiet in \<open>simp add: wiring_inv_def Let_def\<close>,
       use inv(3) in \<open>simp add: start_inv_def\<close>,
       use inv(5) quiet in \<open>simp add: books_inv_def\<close>,
       use inv(6) quiet in \<open>auto simp: limiter_inv_def\<close>)
qed

lemma step_StartReturns:
  assumes "life_inv rt fp ctx c0 s" "enabled s (StartReturns cm sel)"
  shows "\<exists>fs s'. life_event rt fp ctx s (StartReturns cm sel) = (fs, Ret s')
    \<and> life_inv rt fp ctx c0 (recorded s (StartReturns cm sel) fs s')"
proof -
  note inv = life_invD [OF assms(1)]
  have waiting: "l_start s = Waiting" "sel = StartReady \<Longrightarrow> r_readyClosed (l_run s)"
    and reason: "failed_for_reason (case sel of StartReady \<Rightarrow> Started
        | ContextDone e \<Rightarrow> StartFailed (CancelledWaiting e)
        | ManagerDone \<Rightarrow> StartFailed ManagerTerminated) (l_events s)"
    using assms(2) by (auto split: selected.splits)
  let ?fs = "if sel = StartReady then [] else [CancelRun]"
  let ?c = "if sel = StartReady then (l_client s)\<lparr>c_cm := Some cm, c_stopRun := True\<rparr> else l_client s"
  let ?s' = "s\<lparr>l_client := ?c,
    l_start := (case sel of StartReady \<Rightarrow> Started | ContextDone e \<Rightarrow> StartFailed (CancelledWaiting e)
                  | ManagerDone \<Rightarrow> StartFailed ManagerTerminated)\<rparr>"
  have started: "l_start ?s' = Started \<longleftrightarrow> sel = StartReady"
    by (cases sel) simp_all
  show ?thesis
  proof (rule life_inv_recorded)
    show "life_event rt fp ctx s (StartReturns cm sel) = (?fs, Ret ?s')"
      by (rule event_StartReturns)
    show "limiter_inv c0 (recorded s (StartReturns cm sel) ?fs ?s')"
      using inv(6) waiting(1) by (cases sel) (auto simp: limiter_inv_def)
  qed (use inv(1) in \<open>simp add: same_setup_def\<close>,
       use inv(2) started waiting(2) in \<open>simp add: wiring_inv_def Let_def\<close>,
       use inv(3) started waiting(1) reason in \<open>simp add: start_inv_def\<close>,
       rule router_inv_recorded [OF inv(4)], simp,
       use inv(5) in \<open>simp add: books_inv_def\<close>)
qed

lemma step_StopCall:
  assumes "life_inv rt fp ctx c0 s"
  shows "\<exists>fs s'. life_event rt fp ctx s (StopCall x) = (fs, Ret s')
    \<and> life_inv rt fp ctx c0 (recorded s (StopCall x) fs s')"
proof -
  note inv = life_invD [OF assms]
  let ?fs = "if l_start s = Started then [DisconnectCall x, CancelRun] else []"
  let ?s' = "if l_start s = Started then s\<lparr>l_client := (l_client s)\<lparr>c_connected := False\<rparr>\<rparr> else s"
  show ?thesis
  proof (rule life_inv_recorded)
    show "life_event rt fp ctx s (StopCall x) = (?fs, Ret ?s')"
      by (rule event_StopCall [OF inv(3)])
  qed (use inv(1) in \<open>simp add: same_setup_def\<close>,
       use inv(2) in \<open>simp add: wiring_inv_def Let_def\<close>,
       use inv(3) in \<open>simp add: start_inv_def\<close>,
       rule router_inv_recorded [OF inv(4)], simp,
       use inv(5) in \<open>(simp add: books_inv_def; fail)\<close>,
       use inv(3,6) in \<open>auto simp: limiter_inv_def start_inv_def\<close>)
qed

text \<open>What happens outside the client is only seen by the \<open>select\<close>.\<close>

lemma step_outside:
  assumes "life_inv rt fp ctx c0 s" "e = ContextEnds x \<or> e = ManagerEnds"
  shows "\<exists>fs s'. life_event rt fp ctx s e = (fs, Ret s') \<and> life_inv rt fp ctx c0 (recorded s e fs s')"
proof -
  note inv = life_invD [OF assms(1)]
  have quiet: "managers [e] = []" "link_events [e] = []" "attempts [e] = []" "started (e # es) = started es"
    "stopped (e # es) = stopped es" "link_up (e # es) = link_up es"
    "connection_book m (e # es) = connection_book m es" for es m
    using assms(2) by auto
  show ?thesis
  proof (rule life_inv_recorded)
    show "life_event rt fp ctx s e = ([], Ret s)"
      using assms(2) by (auto simp: ret_def)
    show "router_inv rt fp ctx c0 (recorded s e [] s)"
      by (rule router_inv_recorded [OF inv(4)]) (simp add: quiet del: history_simps(9))
  qed (use inv quiet in \<open>simp_all add: inv_defs limiter_inv_def del: history_simps(8-11)\<close>)
qed

lemmas step_ContextEnds = step_outside [OF _ disjI1 [OF refl]]
  and step_ManagerEnds = step_outside [OF _ disjI2 [OF refl]]

text \<open>Every enabled event returns, and keeps the invariant: nothing panics.\<close>

lemma life_event_inv:
  assumes "converts fp" "well_built c0" "life_inv rt fp ctx c0 s" "enabled s e"
  shows "\<exists>fs s'. life_event rt fp ctx s e = (fs, Ret s') \<and> life_inv rt fp ctx c0 (recorded s e fs s')"
  using assms
  by (cases e) (simp_all only: step_ConnectionUp step_ConnectionDown step_AttemptFailed step_PacketIn
      step_StartReturns step_StopCall step_ContextEnds step_ManagerEnds)

interpretation lifecycle: stepped_invariant
  "begin_life rt c0 ctx" "life_step rt fp ctx"
  "\<lambda>s. converts fp \<and> well_built c0 \<longrightarrow> life_inv rt fp ctx c0 s"
  for rt c0 ctx fp
proof unfold_locales
  show "converts fp \<and> well_built c0 \<longrightarrow> life_inv rt fp ctx c0 (begin_life rt c0 ctx)"
    by (simp add: begin_life_inv)
next
  fix s t
  assume "converts fp \<and> well_built c0 \<longrightarrow> life_inv rt fp ctx c0 s" "life_step rt fp ctx s t"
  then show "converts fp \<and> well_built c0 \<longrightarrow> life_inv rt fp ctx c0 t"
    using life_event_inv [of fp c0 rt ctx s] by (fastforce elim: life_stepE simp: recorded_def)
qed

lemma reachable_life_inv:
  "converts fp \<Longrightarrow> well_built c0 \<Longrightarrow> (life_step rt fp ctx)\<^sup>*\<^sup>* (begin_life rt c0 ctx) s \<Longrightarrow>
     life_inv rt fp ctx c0 s"
  using lifecycle.reachable_inv [of rt fp ctx c0 s] by simp

text \<open>Whatever has happened, every enabled event can happen next.\<close>

lemma can_happen:
  assumes "converts fp" "well_built c0" "(life_step rt fp ctx)\<^sup>*\<^sup>* (begin_life rt c0 ctx) s" "enabled s e"
  shows "\<exists>t. (life_step rt fp ctx)\<^sup>*\<^sup>* (begin_life rt c0 ctx) t \<and> l_events t = l_events s @ [e]"
proof -
  obtain fs s' where "life_event rt fp ctx s e = (fs, Ret s')"
    using life_event_inv [OF assms(1,2) reachable_life_inv [OF assms(1-3)] assms(4)] by blast
  then have "life_step rt fp ctx s (recorded s e fs s')"
    using assms(4) by (auto simp: recorded_def intro: life_step.Event)
  then show ?thesis
    using assms(3) by (intro exI [of _ "recorded s e fs s'"]) (simp add: rtranclp.rtrancl_into_rtrancl)
qed

text \<open>The shortest successful start: a connection comes up, and \<open>Start\<close> leaves its \<open>select\<close>.\<close>

lemma start_can_succeed:
  assumes "well_built c0"
  shows "\<exists>s. (life_step rt fp ctx)\<^sup>*\<^sup>* (begin_life rt c0 ctx) s
    \<and> l_events s = [ConnectionUp cm, StartReturns cm StartReady] \<and> l_start s = Started"
proof -
  let ?s0 = "begin_life rt c0 ctx"
  have "c_logger (l_client ?s0) \<noteq> None" "r_firstConn (l_run ?s0)" "\<not> r_readyClosed (l_run ?s0)"
    using assms by (simp_all add: well_built_def begin_life_def)
  from OnConnectionUp_eq [OF this(1), of "l_run ?s0" ctx cm] this obtain fs s1 where
    up: "life_event rt fp ctx ?s0 (ConnectionUp cm) = (fs, Ret s1)"
      "l_start s1 = Waiting" "r_readyClosed (l_run s1)"
    by (simp add: begin_life_def)
  let ?s1 = "recorded ?s0 (ConnectionUp cm) fs s1"
  let ?s2 = "recorded ?s1 (StartReturns cm StartReady) []
    (?s1\<lparr>l_client := (l_client ?s1)\<lparr>c_cm := Some cm, c_stopRun := True\<rparr>, l_start := Started\<rparr>)"
  have "life_step rt fp ctx ?s0 ?s1"
    using up(1) unfolding recorded_def by (intro life_step.Event) simp_all
  moreover have "life_step rt fp ctx ?s1 ?s2"
    unfolding recorded_def [of ?s1] by (rule life_step.Event) (use up(2,3) in \<open>simp_all add: ret_def\<close>)
  ultimately have "(life_step rt fp ctx)\<^sup>*\<^sup>* ?s0 ?s2" by simp
  then show ?thesis
    by (intro exI [of _ ?s2]) (simp add: begin_life_def)
qed

section \<open>Properties\<close>

text \<open>C9: whatever order connections, losses, failed attempts, packets, the return of \<open>Start\<close> and
  calls of \<open>Stop\<close> come in, no callback panics; in particular \<open>startReady\<close> is closed once, by the
  first connection, however many follow, and never again.\<close>

theorem client_never_panics:
  assumes "converts fp" and "well_built c0"
    and "(life_step rt fp ctx)\<^sup>*\<^sup>* (begin_life rt c0 ctx) s" and "enabled s e"
  shows "(\<exists>fs s'. life_event rt fp ctx s e = (fs, Ret s'))
    \<and> releases (l_effects s) = min 1 (length (managers (l_events s)))"
  using life_event_inv [OF assms(1,2) _ assms(4)] reachable_life_inv [OF assms(1-3)]
  by (fastforce simp: life_inv_def wiring_inv_def Let_def Suc_le_eq)

text \<open>C5: once \<open>Start\<close> has returned nil, every publisher is wired to the connection that came up
  first, and stays so over every later connection, loss and stop: an event is never rejected
  as not yet connected. Until a first connection comes up the publishers are as they were.\<close>

theorem started_publishers_wired:
  assumes "converts fp" and "well_built c0"
    and "(life_step rt fp ctx)\<^sup>*\<^sup>* (begin_life rt c0 ctx) s"
  shows "case managers (l_events s) of
      [] \<Rightarrow> l_start s \<noteq> Started \<and> c_publishers (l_client s) = c_publishers c0
    | cm # _ \<Rightarrow>
        map p_publishFunc (c_publishers (l_client s)) = map (\<lambda>_. Some (mgr_Publish cm)) (c_publishers c0)
        \<and> list_all (\<lambda>p. outcome (OnEvent rt p ec topic msg flds) \<noteq> Ret (Some NotYetConnected))
            (c_publishers (l_client s))"
proof -
  have "wiring_inv c0 s"
    using reachable_life_inv [OF assms] by (simp add: life_inv_def)
  then show ?thesis
    by (cases "managers (l_events s)")
       (simp_all add: wiring_inv_def wire_publishers_def list_all_iff SetPublishFunc_def
         connected_not_rejected)
qed

definition gauge_readings :: "measurement list \<Rightarrow> int list" where
  "gauge_readings ms = concat (map (\<lambda>m. case m_Reading m of Gauge v \<Rightarrow> [v] | _ \<Rightarrow> []) ms)"

definition counter_readings :: "measurement list \<Rightarrow> int list" where
  "counter_readings ms = concat (map (\<lambda>m. case m_Reading m of Add v \<Rightarrow> [v] | _ \<Rightarrow> []) ms)"

lemma readings_simps [simp]:
  "gauge_readings [] = []" "counter_readings [] = []"
  "gauge_readings (xs @ ys) = gauge_readings xs @ gauge_readings ys"
  "counter_readings (xs @ ys) = counter_readings xs @ counter_readings ys"
  "gauge_readings (CM_SetConnected (Some m) b) = [if b then 1 else 0]"
  "gauge_readings (CM_IncrReconnects (Some m)) = []"
  "counter_readings (CM_SetConnected (Some m) b) = []"
  "counter_readings (CM_IncrReconnects (Some m)) = [1]"
  by (simp_all add: gauge_readings_def counter_readings_def CM_SetConnected_def CM_IncrReconnects_def)

lemma book_gauge:
  "\<not> stopped es \<Longrightarrow> link_up es \<longleftrightarrow> last (0 # gauge_readings (connection_book (Some m) es)) = 1"
  by (induction es rule: link_up.induct) auto

lemma book_gauges:
  "gauge_readings (connection_book (Some m) es) =
     concat (map (\<lambda>e. case e of ConnectionUp cm \<Rightarrow> [1] | ConnectionDown \<Rightarrow> [0] | _ \<Rightarrow> []) (rev es))"
proof (induction es)
  case (Cons e es)
  then show ?case by (cases e) simp_all
qed simp

lemma book_counter:
  "counter_readings (connection_book (Some m) es) = replicate (length (managers es) - 1) 1"
proof (induction es)
  case (Cons e es)
  then show ?case
    by (cases e; cases "managers es") (simp_all add: managers_Cons replicate_append_same)
qed simp

lemma book_tagged:
  "list_all (tagged name) (connection_book (NewClientMetrics name (Some meter)) es)"
proof (induction es)
  case (Cons e es)
  then show ?case by (cases e) (simp_all add: metrics_defs tagged_def)
qed simp

text \<open>C23: \<open>IsConnected\<close> reports the link. After any history it is true exactly when the latest of
  the connections, the losses and the stops made after \<open>Start\<close> had returned nil is a connection;
  and it agrees with the last reading of the connection gauge as long as there was no such
  stop, which clears the flag and leaves the gauge. A stop made before \<open>Start\<close> has returned nil, or
  after it has failed, does not count: \<open>Stop\<close> clears the flag of a started client only, and
  leaves any other client reporting the connection it has.\<close>

theorem IsConnected_reports_link:
  assumes "converts fp" and "well_built c0"
    and "(life_step rt fp ctx)\<^sup>*\<^sup>* (begin_life rt c0 ctx) s"
  shows "(IsConnected (l_client s) \<longleftrightarrow> link_up (rev (l_events s)))
    \<and> (c_metrics c0 \<noteq> None \<and> \<not> stopped (rev (l_events s)) \<longrightarrow>
         (IsConnected (l_client s)
            \<longleftrightarrow> last (0 # gauge_readings (client_measurements (l_effects s))) = 1))
    \<and> (\<exists>fs err c. Stop (l_client s) x = (fs, Ret (err, c))
         \<and> (IsConnected c \<longleftrightarrow> l_start s \<noteq> Started \<and> IsConnected (l_client s)))"
proof -
  note inv = life_invD(3,5) [OF reachable_life_inv [OF assms]]
  have "\<exists>fs err c. Stop (l_client s) x = (fs, Ret (err, c))
      \<and> (IsConnected c \<longleftrightarrow> l_start s \<noteq> Started \<and> IsConnected (l_client s))"
    using inv(1) by (auto simp: start_inv_def Stop_def IsConnected_def setConnected_def ret_def)
  then show ?thesis
    using inv book_gauge [of "rev (l_events s)" "the (c_metrics c0)"]
    by (cases "c_metrics c0") (auto simp: IsConnected_def start_inv_def books_inv_def)
qed

text \<open>C24: every connection renews the subscriptions, and nothing else sends any: the broker has been
  asked once per connection, for the filters of all subscribers in registration order, in one
  request. A client without subscriptions never sends one.\<close>

theorem subscriptions_renewed:
  assumes "converts fp" and "well_built c0"
    and "(life_step rt fp ctx)\<^sup>*\<^sup>* (begin_life rt c0 ctx) s"
  shows "subscribe_calls (l_effects s) =
    (let opts = concat (map BrokerSubscriptions (c_subscribers c0))
     in if opts = [] then [] else map (\<lambda>_. (ctx, opts)) (managers (l_events s)))"
  using life_invD(5) [OF reachable_life_inv [OF assms]]
  by (simp add: books_inv_def buildSubscribeOptions_eq Let_def map_replicate_const)

text \<open>C32: the connection metrics. A client with a meter sets its gauge to 1 on every connection and
  to 0 on every loss, in order, and counts one reconnection for every connection but the
  first.\<close>

theorem connection_metrics:
  assumes "converts fp" and "well_built c0" and "c_metrics c0 = NewClientMetrics name (Some meter)"
    and "(life_step rt fp ctx)\<^sup>*\<^sup>* (begin_life rt c0 ctx) s"
  shows "gauge_readings (client_measurements (l_effects s)) =
      concat (map (\<lambda>e. case e of ConnectionUp cm \<Rightarrow> [1] | ConnectionDown \<Rightarrow> [0] | _ \<Rightarrow> []) (l_events s))
    \<and> sum_list (counter_readings (client_measurements (l_effects s)))
        = int (length (managers (l_events s)) - 1)
    \<and> list_all (tagged name) (client_measurements (l_effects s))"
proof -
  have "client_measurements (l_effects s) =
      connection_book (NewClientMetrics name (Some meter)) (rev (l_events s))"
    using life_invD(5) [OF reachable_life_inv [OF assms(1,2,4)]] assms(3) by (simp add: books_inv_def)
  then show ?thesis
    using book_tagged by (simp add: book_gauges book_counter sum_list_replicate NewClientMetrics_def)
qed

text \<open>C11: the context of a run is over exactly for one of four reasons: the caller's context ended,
  \<open>Start\<close> failed because the manager ended, a started client was stopped, or the configured
  number of attempts failed in a row after a connection had been up. Its cancel function has
  been called exactly when \<open>Start\<close> failed, for whichever reason, or in one of the last two cases;
  so the end of the caller's context alone ends a run that nobody cancels. In particular a
  client never gives up on its first connection, nor with a limit of zero or less. The bound is
  the range of Go's \<open>int\<close>, in which failed attempts are counted.\<close>

theorem run_cancelled_iff:
  assumes "converts fp" and "well_built c0"
    and "(life_step rt fp ctx)\<^sup>*\<^sup>* (begin_life rt c0 ctx) s" and "length (l_events s) < 2 ^ 63"
  defines "limit_reached \<equiv> (let limit = sint (MaxReconnectAttempts (c_cfg c0))
       in 0 < limit \<and> (\<exists>pre post.
            attempts (l_events s) = pre @ Up # replicate (nat limit) Fail @ post))"
  shows "(CancelRun \<in> set (l_effects s) \<longleftrightarrow>
      (\<exists>e. l_start s = StartFailed e) \<or> stopped (rev (l_events s)) \<or> limit_reached)
    \<and> (run_over s \<longleftrightarrow>
      ctx_error (l_events s) \<noteq> None \<or> l_start s = StartFailed ManagerTerminated
      \<or> stopped (rev (l_events s)) \<or> limit_reached)"
proof -
  have short: "length (attempts es) \<le> length es" for es :: "('a, 'c) event list"
    by (induction es) (auto simp: attempts_def split: event.split)
  obtain lg where lg: "c_logger c0 = Some lg"
    using assms(2) by (auto simp: well_built_def)
  obtain g where "limiter_state c0 (attempts (l_events s)) (r_limiter (l_run s)) g"
    and cancel: "CancelRun \<in> set (l_effects s) \<longleftrightarrow>
      g \<or> (\<exists>e. l_start s = StartFailed e) \<or> stopped (rev (l_events s))"
    using life_invD(6) [OF reachable_life_inv [OF assms(1-3)]] by (auto simp: limiter_inv_def)
  then have "g \<longleftrightarrow> StopRun \<in> set (effects (limiter_run
      (Some (new_limiter (MaxReconnectAttempts (c_cfg c0)) (Some lg))) (attempts (l_events s))))"
    by (auto simp: limiter_state_def lg)
  also have "\<dots> \<longleftrightarrow> 0 < sint (MaxReconnectAttempts (c_cfg c0)) \<and> (\<exists>pre post. attempts (l_events s)
      = pre @ Up # replicate (nat (sint (MaxReconnectAttempts (c_cfg c0)))) Fail @ post)"
    using limiter_stops short [of "l_events s"] assms(4) by simp
  finally have cancelled: "CancelRun \<in> set (l_effects s) \<longleftrightarrow>
      (\<exists>e. l_start s = StartFailed e) \<or> stopped (rev (l_events s)) \<or> limit_reached"
    using cancel by (auto simp: Let_def limit_reached_def)
  have "failed_for_reason (l_start s) (l_events s)"
    using life_invD(3) [OF reachable_life_inv [OF assms(1-3)]] by (simp add: start_inv_def)
  then have "ctx_error (l_events s) \<noteq> None \<or> l_start s = StartFailed ManagerTerminated"
    if "l_start s = StartFailed e" for e
    using that by (cases e) (auto simp: failed_for_reason_def)
  with cancelled show ?thesis by (auto simp: run_over_def runCtx_done_def)
qed

text \<open>C31: \<open>Start\<close> and \<open>Stop\<close>. A client that has started cannot be started again, and stopping it
  sends the disconnect first, cancels the run after it, returns what the disconnect returned
  and clears the connected flag. A client whose \<open>Start\<close> has not returned nil, because it is
  waiting or because it failed, can be started, and stopping it does nothing at all: a flag
  that a connection set meanwhile stays set.\<close>

theorem start_stop_protocol:
  assumes "converts fp" and "well_built c0"
    and "(life_step rt fp ctx)\<^sup>*\<^sup>* (begin_life rt c0 ctx) s"
  shows "case l_start s of
      Started \<Rightarrow>
        startRun rt (l_client s) ctx refused = ([], Ret (Inl AlreadyStarted))
        \<and> (\<exists>cm. c_cm (l_client s) = Some cm \<and> Stop (l_client s) x =
             ([DisconnectCall x, CancelRun], Ret (mgr_Disconnect cm x, setConnected (l_client s) False)))
    | _ \<Rightarrow>
        outcome (startRun rt (l_client s) ctx refused) \<noteq> Ret (Inl AlreadyStarted)
        \<and> Stop (l_client s) x = ([], Ret (None, l_client s))"
  using life_invD(3) [OF reachable_life_inv [OF assms]]
  by (cases "l_start s"; cases refused)
     (auto simp: start_inv_def startRun_def startGuard_def createRun_def Stop_def Let_def ret_def)

section \<open>Witnesses\<close>

text \<open>
  A client with a publisher, a subscriber, a meter and a limit of one attempt, over a broker
  that refuses subscriptions. It starts, loses the connection, fails an attempt and is
  stopped.
\<close>

definition example_config :: client_config where
  "example_config = \<lparr>ServerURLs = [\<lparr>Scheme = ''mqtt'', Host = ''broker'', url_text = ''mqtt://broker''\<rparr>],
     ClientName = ''main'', ClientID = ''id'', KeepAlive = 30000000000, CleanStart = True,
     SessionExpiryInterval = 0, TLSConfig = None, Username = '''', Password = None,
     WillMessage = None, ReconnectBackoffFunc = None, MaxReconnectAttempts = 1,
     OnConnect = Some ''hook'', OnDisconnect = None, MeterProvider = Some ''provider'',
     Logger = None\<rparr>"

definition example_client :: "(string, byte, string) client" where
  "example_client =
     AddSubscriber (AddPublisher (the (NewClient example_config)) (BuildPublisher example_wire NewPublisher))
       example_subscriber"

definition example_manager :: "(string, string) manager" where
  "example_manager = \<lparr>mgr_Subscribe = (\<lambda>ctx opts. Some ''refused''), mgr_Publish = (\<lambda>ctx m. None),
     mgr_Disconnect = (\<lambda>ctx. None)\<rparr>"

abbreviation example_start :: "(string, byte, string) life" where
  "example_start \<equiv> begin_life example_runtime example_client ''ctx''"

abbreviation example_step :: "(string, byte, string) life \<Rightarrow> (string, byte, string) life \<Rightarrow> bool" where
  "example_step \<equiv> life_step example_runtime example_conversion ''ctx''"

lemma example_client_well_built: "well_built example_client"
proof -
  obtain c :: "(string, byte, string) client" where c: "NewClient example_config = Some c"
    by (simp add: NewClient_def example_config_def Let_def)
  then show ?thesis
    using NewClient_well_built [OF c] example_subscriber_wired
    by (simp add: example_client_def Add_well_built)
qed

lemma example_client_simps:
  "c_publishers example_client = [BuildPublisher example_wire NewPublisher]"
  "c_subscribers example_client = [example_subscriber]"
  "c_metrics example_client = NewClientMetrics ''main'' (Some ''github.com/tsarna/vinculum-mqtt/client'')"
  "c_cfg example_client = example_config"
  by (simp_all add: example_client_def AddSubscriber_def AddPublisher_def NewClient_def
      example_config_def Let_def)

definition example_history :: "(string, string) event list" where
  "example_history = [ConnectionUp example_manager, StartReturns example_manager StartReady,
     ConnectionDown, AttemptFailed ''timeout'']"

lemma example_run:
  "\<exists>s. example_step\<^sup>*\<^sup>* example_start s \<and> l_events s = example_history"
proof -
  note go = can_happen [OF example_converts example_client_well_built]
  obtain s where "example_step\<^sup>*\<^sup>* example_start s"
    "l_events s = [ConnectionUp example_manager, StartReturns example_manager StartReady]"
    using start_can_succeed [OF example_client_well_built] by blast
  then obtain t where "example_step\<^sup>*\<^sup>* example_start t"
    "l_events t = [ConnectionUp example_manager, StartReturns example_manager StartReady, ConnectionDown]"
    using go [of example_runtime "''ctx''" s ConnectionDown] by auto
  then show ?thesis
    using go [of example_runtime "''ctx''" t "AttemptFailed ''timeout''"]
    by (auto simp: example_history_def)
qed

theorem client_never_panics_witness:
  "\<exists>s fs t. example_step\<^sup>*\<^sup>* example_start s
     \<and> life_event example_runtime example_conversion ''ctx'' s (ConnectionUp example_manager) = (fs, Ret t)
     \<and> releases (l_effects s) = 1"
proof -
  obtain s where s: "example_step\<^sup>*\<^sup>* example_start s" "l_events s = example_history"
    using example_run by blast
  then show ?thesis
    using client_never_panics [OF example_converts example_client_well_built s(1), of "ConnectionUp example_manager"]
    by (auto simp: example_history_def managers_Cons)
qed

theorem started_publishers_wired_witness:
  "\<exists>s. example_step\<^sup>*\<^sup>* example_start s
     \<and> map p_publishFunc (c_publishers (l_client s)) = [Some (mgr_Publish example_manager)]"
proof -
  obtain s where s: "example_step\<^sup>*\<^sup>* example_start s" "l_events s = example_history"
    using example_run by blast
  then show ?thesis
    using started_publishers_wired [OF example_converts example_client_well_built s(1)]
    by (auto simp: example_history_def managers_Cons example_client_simps)
qed

theorem IsConnected_reports_link_witness:
  "\<exists>s. example_step\<^sup>*\<^sup>* example_start s \<and> \<not> IsConnected (l_client s)
     \<and> last (0 # gauge_readings (client_measurements (l_effects s))) \<noteq> 1"
proof -
  obtain s where s: "example_step\<^sup>*\<^sup>* example_start s" "l_events s = example_history"
    using example_run by blast
  then show ?thesis
    using IsConnected_reports_link [OF example_converts example_client_well_built s(1), of "''stop''"]
    by (intro exI [of _ s])
       (auto simp: example_history_def example_client_simps NewClientMetrics_def split: if_splits)
qed

theorem subscriptions_renewed_witness:
  "\<exists>s. example_step\<^sup>*\<^sup>* example_start s
     \<and> subscribe_calls (l_effects s) = [(''ctx'', BrokerSubscriptions example_subscriber)]"
proof -
  obtain s where s: "example_step\<^sup>*\<^sup>* example_start s" "l_events s = example_history"
    using example_run by blast
  have "BrokerSubscriptions example_subscriber \<noteq> []"
    by (simp add: BrokerSubscriptions_def example_subscriber_def)
  then show ?thesis
    using s subscriptions_renewed [OF example_converts example_client_well_built s(1)]
    by (auto simp: example_history_def managers_Cons example_client_simps)
qed

theorem connection_metrics_witness:
  "\<exists>s. example_step\<^sup>*\<^sup>* example_start s
     \<and> gauge_readings (client_measurements (l_effects s)) = [1, 0]
     \<and> sum_list (counter_readings (client_measurements (l_effects s))) = 0"
proof -
  obtain s where s: "example_step\<^sup>*\<^sup>* example_start s" "l_events s = example_history"
    using example_run by blast
  then show ?thesis
    using connection_metrics [OF example_converts example_client_well_built example_client_simps(3) s(1)]
    by (auto simp: example_history_def managers_Cons)
qed

theorem run_cancelled_iff_witness:
  "(\<exists>s. example_step\<^sup>*\<^sup>* example_start s \<and> CancelRun \<in> set (l_effects s))
   \<and> (\<exists>s. example_step\<^sup>*\<^sup>* example_start s \<and> run_over s \<and> CancelRun \<notin> set (l_effects s))"
proof -
  let ?t = "recorded example_start (ContextEnds ''deadline'') [] example_start"
  have t: "example_step\<^sup>*\<^sup>* example_start ?t"
    unfolding recorded_def by (rule r_into_rtranclp, rule life_step.Event) (simp_all add: ret_def)
  have "l_events ?t = [ContextEnds ''deadline'']" "l_start ?t = Waiting"
    by (simp_all add: begin_life_def)
  then have gone: "run_over ?t \<and> CancelRun \<notin> set (l_effects ?t)"
    using run_cancelled_iff [OF example_converts example_client_well_built t]
    by (simp add: Let_def attempts_def del: recorded_simps)
  obtain s where s: "example_step\<^sup>*\<^sup>* example_start s" "l_events s = example_history"
    using example_run by blast
  have "attempts example_history = [] @ Up # replicate (nat (sint (1 :: goint))) Fail @ []"
    by (simp add: example_history_def attempts_def)
  then have "\<exists>pre post. attempts example_history = pre @ Up # replicate (nat (sint (1 :: goint))) Fail @ post"
    by blast
  moreover have "MaxReconnectAttempts (c_cfg example_client) = 1" "length example_history < 2 ^ 63"
    by (simp_all add: example_client_simps example_config_def example_history_def)
  ultimately have "CancelRun \<in> set (l_effects s)"
    using run_cancelled_iff [OF example_converts example_client_well_built s(1)] s(2)
    by (simp only: Let_def) simp
  with s(1) t gone show ?thesis by blast
qed

text \<open>\<open>Start\<close> fails although the connection is up: stopping leaves the client reporting a connection.\<close>

theorem start_stop_protocol_witness:
  "\<exists>s. example_step\<^sup>*\<^sup>* example_start s \<and> IsConnected (l_client s)
     \<and> Stop (l_client s) ''stop'' = ([], Ret (None, l_client s))"
proof -
  obtain s where s: "example_step\<^sup>*\<^sup>* example_start s" "l_events s = [ConnectionUp example_manager]"
    using can_happen [OF example_converts example_client_well_built rtranclp.rtrancl_refl,
        of example_runtime "''ctx''" "ConnectionUp example_manager"]
    by (auto simp: begin_life_def)
  have "start_inv s"
    using reachable_life_inv [OF example_converts example_client_well_built s(1)] by (rule life_invD)
  then have "l_start s \<noteq> Started" "IsConnected (l_client s)"
    using s(2) by (simp_all add: start_inv_def IsConnected_def)
  then show ?thesis
    using s(1) start_stop_protocol [OF example_converts example_client_well_built s(1),
        of None "''stop''"]
    by (cases "l_start s") auto
qed

end
