(* ===== verification/Construction.thy ===== *)
theory Construction
  imports Lifecycle
begin

text \<open>
  How a program makes a client: \<open>NewClient\<close> on a configuration, then \<open>AddPublisher\<close> and
  \<open>AddSubscriber\<close> of what the builders of the other packages made, in any number and order, and
  then \<open>Start\<close>. What the constructors establish is a typing of the client, all the pointers
  that the operations dereference are there, and every step of its life keeps it.
\<close>

section \<open>Making a client\<close>

datatype ('c, 'm, 'e) part =
    APublisher "('m, 'e) publisher_option list"
  | ASubscriber "('c, 'm, 'e) subscriber_option list"

text \<open>The chain of builder calls for a part, and its registration; an error ends the construction.\<close>

fun add_part ::
  "(string \<Rightarrow> ('m, 'e) wire_format option) \<Rightarrow> ('m, 'e) wire_format \<Rightarrow> ('c, 'm, 'e) client
    \<Rightarrow> ('c, 'm, 'e) part \<Rightarrow> ('c, 'm, 'e) client option" where
  "add_part byName auto c (APublisher opts) =
     Some (AddPublisher c (BuildPublisher auto (foldl (set_publisher_option byName) NewPublisher opts)))"
| "add_part byName auto c (ASubscriber opts) =
     (case BuildSubscriber auto (foldl (set_subscriber_option byName) NewSubscriber opts) of
        Inl e \<Rightarrow> None
      | Inr s \<Rightarrow> Some (AddSubscriber c s))"

fun add_parts ::
  "(string \<Rightarrow> ('m, 'e) wire_format option) \<Rightarrow> ('m, 'e) wire_format \<Rightarrow> ('c, 'm, 'e) client
    \<Rightarrow> ('c, 'm, 'e) part list \<Rightarrow> ('c, 'm, 'e) client option" where
  "add_parts byName auto c [] = Some c"
| "add_parts byName auto c (p # ps) =
     Option.bind (add_part byName auto c p) (\<lambda>c. add_parts byName auto c ps)"

definition construct ::
  "(string \<Rightarrow> ('m, 'e) wire_format option) \<Rightarrow> ('m, 'e) wire_format \<Rightarrow> client_config
    \<Rightarrow> ('c, 'm, 'e) part list \<Rightarrow> ('c, 'm, 'e) client option" where
  "construct byName auto cfg ps =
     Option.bind (NewClient cfg) (\<lambda>c. add_parts byName auto c ps)"

section \<open>The typing\<close>

definition publisher_typed :: "('c, 'm, 'e) publisher \<Rightarrow> bool" where
  "publisher_typed p \<longleftrightarrow> p_wireFormat p \<noteq> None \<and> p_logger p \<noteq> None"

definition subscriber_typed :: "('c, 'm, 'e) subscriber \<Rightarrow> bool" where
  "subscriber_typed s \<longleftrightarrow> wired s \<and> s_subscriptions s \<noteq> []"

definition client_typed :: "('c, 'm, 'e) client \<Rightarrow> bool" where
  "client_typed c \<longleftrightarrow> ServerURLs (c_cfg c) \<noteq> [] \<and> c_logger c \<noteq> None
     \<and> list_all publisher_typed (c_publishers c) \<and> list_all subscriber_typed (c_subscribers c)"

text \<open>A typed publisher and a typed subscriber never panic.\<close>

lemma publisher_typed_returns:
  assumes "publisher_typed p"
  shows "\<exists>res. outcome (OnEvent rt p ctx topic msg flds) = Ret res"
proof -
  obtain wfm where "p_wireFormat p = Some wfm"
    using assms by (auto simp: publisher_typed_def)
  then show ?thesis
    by (cases rule: OnEvent_cases [of p wfm rt ctx topic msg flds]) (auto simp: send_result)
qed

lemma subscriber_typed_returns:
  assumes "subscriber_typed s"
  shows "\<exists>res. outcome (HandleMessage rt s ctx msg) = Ret res"
  using HandleMessage_balanced [of s rt ctx msg] assms by (auto simp: subscriber_typed_def)

section \<open>The constructors establish it\<close>

lemma NewClient_typed: "NewClient cfg = Some c \<Longrightarrow> client_typed c"
  by (auto simp: NewClient_def client_typed_def Let_def split: if_splits option.splits)

lemma built_publisher_typed:
  "publisher_typed (BuildPublisher auto (foldl (set_publisher_option byName) NewPublisher opts))"
  using pb_logger_foldl [of NewPublisher byName opts]
  by (simp add: publisher_typed_def BuildPublisher_def Let_def NewPublisher_def)

lemma built_subscriber_typed:
  assumes "BuildSubscriber auto (foldl (set_subscriber_option byName) NewSubscriber opts) = Inr s"
  shows "subscriber_typed s"
  using built_from_options_wired [OF assms] assms
  by (auto simp: subscriber_typed_def BuildSubscriber_def Let_def split: if_splits)

lemma add_part_typed:
  "add_part byName auto c p = Some c' \<Longrightarrow> client_typed c \<and> well_built c \<Longrightarrow>
     client_typed c' \<and> well_built c'"
  by (cases p)
     (auto simp: client_typed_def AddPublisher_def AddSubscriber_def well_built_def built_publisher_typed
       dest: built_subscriber_typed built_from_options_wired split: sum.splits)

lemma add_parts_typed:
  "add_parts byName auto c ps = Some c' \<Longrightarrow> client_typed c \<and> well_built c \<Longrightarrow>
     client_typed c' \<and> well_built c'"
proof (induction ps arbitrary: c)
  case (Cons p ps)
  then obtain c1 where "add_part byName auto c p = Some c1" "add_parts byName auto c1 ps = Some c'"
    by (auto split: Option.bind_splits)
  then show ?case using Cons.IH [of c1] add_part_typed Cons.prems(2) by blast
qed simp

lemma construct_typed:
  "construct byName auto cfg ps = Some c \<Longrightarrow> client_typed c \<and> well_built c"
proof -
  assume "construct byName auto cfg ps = Some c"
  then obtain c1 where c1: "NewClient cfg = Some c1" "add_parts byName auto c1 ps = Some c"
    by (auto simp: construct_def split: Option.bind_splits)
  with add_parts_typed [OF c1(2)] NewClient_typed NewClient_well_built show ?thesis by blast
qed

text \<open>Construction fails only where \<open>NewClient\<close> or a subscriber's builder does.\<close>

lemma add_parts_None_iff:
  "add_parts byName auto c ps = None \<longleftrightarrow>
     (\<exists>opts e. ASubscriber opts \<in> set ps
        \<and> BuildSubscriber auto (foldl (set_subscriber_option byName) NewSubscriber opts) = Inl e)"
proof (induction ps arbitrary: c)
  case (Cons p ps)
  show ?case
  proof (cases p)
    case (APublisher opts)
    then show ?thesis using Cons.IH by auto
  next
    case (ASubscriber opts)
    then show ?thesis
      using Cons.IH
      by (cases "BuildSubscriber auto (foldl (set_subscriber_option byName) NewSubscriber opts)") auto
  qed
qed simp

lemma construct_None_iff:
  "construct byName auto cfg ps = None \<longleftrightarrow> ServerURLs cfg = []
     \<or> (\<exists>opts e. ASubscriber opts \<in> set ps
          \<and> BuildSubscriber auto (foldl (set_subscriber_option byName) NewSubscriber opts) = Inl e)"
  by (auto simp: construct_def NewClient_def Let_def add_parts_None_iff split: Option.bind_splits)

section \<open>The life of the client keeps it\<close>

lemma wire_publishers_typed:
  "list_all publisher_typed (wire_publishers cm ps) = list_all publisher_typed ps"
  by (simp add: wire_publishers_def list_all_iff publisher_typed_def SetPublishFunc_def)

lemma life_keeps_typing:
  assumes "life_inv rt fp ctx c0 s" "client_typed c0"
  shows "client_typed (l_client s)"
proof -
  have "same_setup c0 (l_client s)" "wiring_inv c0 s"
    using life_invD [OF assms(1)] by simp_all
  then show ?thesis
    using assms(2) by (auto simp: client_typed_def same_setup_def wiring_inv_def Let_def
        wire_publishers_typed split: list.splits)
qed

section \<open>Properties\<close>

text \<open>C18: a client made by the constructors is well typed, and stays so whatever happens to it: it has
  a broker to connect to, a logger, publishers with a wire format and a logger, and
  subscribers with a handler, a wire format, a logger and at least one subscription. So in
  every reachable state none of the operations that the client's user or autopaho may call
  panics: the next callback, an event to any publisher, a message to any subscriber.\<close>

theorem constructed_client_typed:
  assumes "converts fp" and "construct byName auto cfg ps = Some c0"
    and "(life_step rt fp ctx)\<^sup>*\<^sup>* (begin_life rt c0 ctx) s" and "enabled s e"
  shows "client_typed (l_client s)
    \<and> (\<exists>fs s'. life_event rt fp ctx s e = (fs, Ret s'))
    \<and> list_all (\<lambda>p. \<exists>res. outcome (OnEvent rt p x topic msg flds) = Ret res) (c_publishers (l_client s))
    \<and> list_all (\<lambda>u. \<exists>res. outcome (HandleMessage rt u x m) = Ret res) (c_subscribers (l_client s))"
proof -
  have c0: "client_typed c0" "well_built c0"
    using construct_typed [OF assms(2)] by simp_all
  have inv: "life_inv rt fp ctx c0 s"
    by (rule reachable_life_inv [OF assms(1) c0(2) assms(3)])
  have typed: "client_typed (l_client s)"
    by (rule life_keeps_typing [OF inv c0(1)])
  show ?thesis
    using typed life_event_inv [OF assms(1) c0(2) inv assms(4)]
    by (auto simp: client_typed_def list_all_iff publisher_typed_returns subscriber_typed_returns)
qed

section \<open>Witnesses\<close>

definition example_parts :: "(string, byte, string) part list" where
  "example_parts = [APublisher [WithDefaultQoS 2], ASubscriber example_options]"

lemma example_constructed:
  "\<exists>c. construct (\<lambda>n. None) example_wire example_config example_parts = Some c
     \<and> length (c_publishers c) = 1 \<and> length (c_subscribers c) = 1"
  using example_subscriber_built
  by (simp add: construct_def NewClient_def example_config_def example_parts_def Let_def
      AddPublisher_def AddSubscriber_def)

text \<open>Before anything has happened a packet may already come in, and an event be published.\<close>

theorem constructed_client_typed_witness:
  "\<exists>c p. construct (\<lambda>n. None) example_wire example_config example_parts = Some c
     \<and> c_publishers c = [p]
     \<and> (\<exists>res. outcome (OnEvent example_runtime p ''ctx'' ''dev'' (Some 5) None) = Ret res)
     \<and> (\<exists>fs s. life_event example_runtime example_conversion ''ctx''
           (begin_life example_runtime c ''ctx'') (PacketIn example_packet) = (fs, Ret s))"
proof -
  obtain c :: "(string, byte, string) client" and p where c:
    "construct (\<lambda>n. None) example_wire example_config example_parts = Some c" "c_publishers c = [p]"
    using example_constructed by (auto simp: length_Suc_conv)
  from constructed_client_typed [where rt = example_runtime and ctx = "''ctx''" and x = "''ctx''"
      and s = "begin_life example_runtime c ''ctx''" and e = "PacketIn example_packet"
      and topic = "''dev''" and msg = "Some 5" and flds = None, OF example_converts c(1)] c
  show ?thesis by (simp add: begin_life_def)
qed

end
