(* ===== verification/Bridge.thy ===== *)
theory Bridge
  imports Exchange Construction
begin

text \<open>
  Two clients on one broker, or one client that receives what it sends: an event on the bus of
  the one becomes events on the bus of the other. Here the publisher (src/publisher), the
  subscriber (src/subscriber), the router and the client (src/client) and the carrier
  (src/carrier) work together, in whatever states the histories of the two clients have
  brought them to.
\<close>

section \<open>The events a client hands on\<close>

text \<open>What the subscribers did among the effects of the client, and the events among that.\<close>

definition subscriber_effects ::
  "('c, 'm, 'e) client_effect list \<Rightarrow> ('c, 'm, 'e) sub_effect list" where
  "subscriber_effects fs = concat (map (\<lambda>f. case f of SubscriberEffect x \<Rightarrow> [x] | _ \<Rightarrow> []) fs)"

definition client_events ::
  "('c, 'm, 'e) client_effect list \<Rightarrow> ('c \<times> string \<times> 'm any \<times> (string, string) gomap) list" where
  "client_events fs = sub_events (subscriber_effects fs)"

lemma subscriber_effects_simps [simp]:
  "subscriber_effects [] = []" "subscriber_effects (fs @ gs) = subscriber_effects fs @ subscriber_effects gs"
  "subscriber_effects (f # fs) = (case f of SubscriberEffect x \<Rightarrow> [x] | _ \<Rightarrow> []) @ subscriber_effects fs"
  "subscriber_effects (map SubscriberEffect xs) = xs" "subscriber_effects (map ClientMeasure ms) = []"
  by (simp_all add: subscriber_effects_def comp_def)

lemma subscriber_effects_concat: "subscriber_effects (concat fss) = concat (map subscriber_effects fss)"
  by (induction fss) simp_all

lemma sub_events_concat: "sub_events (concat fss) = concat (map sub_events fss)"
  by (induction fss) simp_all

text \<open>Logging what a handler returned adds nothing to them.\<close>

lemma subscriberHandler_effects:
  "subscriber_effects (effects (subscriberHandler rt lg ctx s msg)) = effects (HandleMessage rt s ctx msg)"
proof -
  obtain fs out where run: "HandleMessage rt s ctx msg = (fs, out)"
    by (rule prod.exhaust)
  then show ?thesis
    by (cases out; cases lg) (auto simp: subscriberHandler_def split: option.split)
qed

lemma deliveries_effects:
  "subscriber_effects (deliveries rt c ctx pb topic) =
     concat (map (\<lambda>s. effects (HandleMessage rt s ctx (message_of pb topic)))
       (filter (\<lambda>s. \<exists>p \<in> set (MQTTPatterns s). Matches rt p topic) (c_subscribers c)))"
  by (simp add: deliveries_def subscriber_effects_concat comp_def subscriberHandler_effects)

lemma deliveries_events:
  "client_events (deliveries rt c ctx pb topic) =
     concat (map (\<lambda>s. sub_events (effects (HandleMessage rt s ctx (message_of pb topic))))
       (filter (\<lambda>s. \<exists>p \<in> set (MQTTPatterns s). Matches rt p topic) (c_subscribers c)))"
  by (simp add: client_events_def deliveries_effects sub_events_concat comp_def)

section \<open>Across the bridge\<close>

text \<open>
  A subscriber that reads what the publisher writes: its wire format decodes the payload to the
  value, and its topics are taken over as they are.
\<close>

definition reads_value :: "('c, 'm, 'e) subscriber \<Rightarrow> payload \<Rightarrow> 'm any \<Rightarrow> bool" where
  "reads_value s body v \<longleftrightarrow>
     (\<exists>wfm. s_wireFormat s = Some wfm \<and> wf_Deserialize wfm body = Inr v)
     \<and> (\<forall>sub \<in> set (s_subscriptions s). VinculumTopicFunc sub = None)"

text \<open>The event it hands on: the published value and fields, and what its pattern extracts.\<close>

definition hands_on ::
  "'c runtime \<Rightarrow> string \<Rightarrow> 'm any \<Rightarrow> (string, string) gomap \<Rightarrow> ('c, 'm, 'e) subscriber
    \<Rightarrow> 'c \<times> string \<times> 'm any \<times> (string, string) gomap \<Rightarrow> bool" where
  "hands_on rt topic v flds s ev \<longleftrightarrow>
     (\<exists>c flds' sub. ev = (c, topic, v, flds') \<and> findSubscription rt s topic = Inr sub
        \<and> gm_get flds' = (\<lambda>k. if isTrace k then None else gm_get flds k)
            ++ gm_get (Extract rt (MQTTPattern sub) topic))"

lemma one_each: "\<forall>x \<in> set xs. \<exists>y. f x = [y] \<and> P x y \<Longrightarrow> list_all2 P xs (concat (map f xs))"
  by (induction xs) auto

text \<open>A started client's publisher sends every event that resolves and serializes.\<close>

lemma started_sends:
  assumes "life_inv rt fp ctx c0 s" "l_start s = Started" "p \<in> set (c_publishers (l_client s))"
    and "p_wireFormat p = Some wfm" "resolveMapping rt p topic v flds = Ret (Inr (t, q, r))" "t \<noteq> ''''"
    and "wf_Serialize wfm v = Inr body"
  shows "\<exists>c. pub_calls (effects (OnEvent rt p x topic v flds)) = [(c, outgoing rt x t q r body flds)]"
proof -
  have "wiring_inv c0 s" using life_invD [OF assms(1)] by simp
  then have "p_publishFunc p \<noteq> None"
    using assms(2,3) by (auto simp: wiring_inv_def Let_def wire_publishers_def SetPublishFunc_def split: list.splits)
  with assms(4-7) show ?thesis
    by (auto simp: OnEvent_def send_calls)
qed

lemma bridged:
  assumes "ranges_ok rt" "injects_headers rt" "converts fp" "well_built c0" "life_inv rt fp ctx c0 s"
    and "p_wireFormat p = Some wfm" "wf_Serialize wfm v = Inr body" "body \<noteq> None"
    and "pub_calls (effects (OnEvent rt p x topic v flds)) = [(c, m)]" "forwards m pb" "pub_Topic m \<noteq> ''''"
    and "\<forall>u \<in> set (c_subscribers c0). reads_value u body v"
  shows "\<exists>fs s'. life_event rt fp ctx s (PacketIn pb) = (fs, Ret s')
    \<and> list_all2 (hands_on rt (pub_Topic m) v flds)
        (filter (\<lambda>u. \<exists>f \<in> set (MQTTPatterns u). Matches rt f (pub_Topic m)) (c_subscribers c0))
        (client_events fs)"
proof -
  let ?r = "r_router (l_run s)" and ?t = "pub_Topic m"
  let ?subs = "filter (\<lambda>u. \<exists>f \<in> set (MQTTPatterns u). Matches rt f ?t) (c_subscribers c0)"
  have topic: "pk_Topic pb = ?t" and res: "resolved ?r pb = (?r, ?t)"
    using assms(10) by (simp_all add: forwards_def resolved_def)
  have "router_ok rt c0 ctx ?r"
    using life_invD(4) [OF assms(5)] unfolding router_inv_def by blast
  from event_PacketIn [OF assms(3,4) this, of pb] res assms(11)
  have run: "life_event rt fp ctx s (PacketIn pb) = (deliveries rt c0 ctx pb ?t, Ret s)"
    by simp
  have "\<exists>ev. sub_events (effects (HandleMessage rt u ctx (message_of pb ?t))) = [ev]
      \<and> hands_on rt ?t v flds u ev" if u: "u \<in> set ?subs" for u
  proof -
    have reads: "reads_value u body v" and wired: "wired u"
      using u assms(4,12) by (auto simp: well_built_def)
    obtain ev wfm' where ev: "s_subscriber u = Some ev" and wfm': "s_wireFormat u = Some wfm'"
      "wf_Deserialize wfm' body = Inr v"
      using reads wired by (auto simp: reads_value_def wired_def)
    have "\<nexists>e. findSubscription rt u ?t = Inl e"
      using u by (auto simp: findSubscription_Inl_iff)
    then obtain sub where sub: "findSubscription rt u ?t = Inr sub"
      by (cases "findSubscription rt u ?t") auto
    have "VinculumTopicFunc sub = None"
      using reads findSubscription_mem [OF sub] by (simp add: reads_value_def)
    from forwarded_event [OF assms(1,2,6,9,10) wired ev wfm'(1) _ sub this, of ctx] assms(7,8) wfm'(2) topic sub
    show ?thesis by (auto simp: hands_on_def)
  qed
  then have "list_all2 (hands_on rt ?t v flds) ?subs (client_events (deliveries rt c0 ctx pb ?t))"
    unfolding deliveries_events by (intro one_each) blast
  with run show ?thesis by blast
qed

section \<open>Properties\<close>

text \<open>C2: from bus to bus. Take a client that has started, in any state its history can have led to,
  an event whose topic resolves to an MQTT topic and whose value serializes, and any of its
  publishers: the event is published exactly once, on that topic. Take another client (or the
  same one), in any reachable state, whose subscribers read the publisher's format, and let
  the broker forward the message to it: each of its subscribers with a matching pattern hands
  exactly one event to its bus, in registration order, with the published value and fields,
  and no other subscriber hands on anything.\<close>

theorem event_crosses_bridge:
  assumes "ranges_ok rt" and "injects_headers rt" and "converts fp" and "well_built a0" and "well_built b0"
    and "(life_step rt fp ctx)\<^sup>*\<^sup>* (begin_life rt a0 ctx) a" and "l_start a = Started"
    and "(life_step rt fp ctx')\<^sup>*\<^sup>* (begin_life rt b0 ctx') b"
    and "p \<in> set (c_publishers (l_client a))" and "p_wireFormat p = Some wfm"
    and "resolveMapping rt p topic v flds = Ret (Inr (t, q, r))" and "t \<noteq> ''''"
    and "wf_Serialize wfm v = Inr body" and "body \<noteq> None"
    and "\<forall>u \<in> set (c_subscribers b0). reads_value u body v"
  shows "\<exists>c m. pub_calls (effects (OnEvent rt p x topic v flds)) = [(c, m)] \<and> pub_Topic m = t
    \<and> (\<forall>pb. forwards m pb \<longrightarrow> (\<exists>fs b'. life_event rt fp ctx' b (PacketIn pb) = (fs, Ret b')
         \<and> list_all2 (hands_on rt t v flds)
             (filter (\<lambda>u. \<exists>f \<in> set (MQTTPatterns u). Matches rt f t) (c_subscribers b0))
             (client_events fs)))"
proof -
  obtain c where c: "pub_calls (effects (OnEvent rt p x topic v flds)) = [(c, outgoing rt x t q r body flds)]"
    using started_sends [OF reachable_life_inv [OF assms(3,4,6)] assms(7,9-13)] by blast
  have t: "pub_Topic (outgoing rt x t q r body flds) = t" by simp
  note bridged [OF assms(1-3,5) reachable_life_inv [OF assms(3,5,8)] assms(10,13,14) c _ _ assms(15)]
  with c t assms(12) show ?thesis 
    by (intro exI [of _ c] exI [of _ "outgoing rt x t q r body flds"]) auto
qed

section \<open>Concrete inputs\<close>

text \<open>A client that receives what it sends, started over the example's broker.\<close>

definition echo_client :: "(string, byte, string) client" where
  "echo_client =
     AddSubscriber (AddPublisher (the (NewClient example_config)) (BuildPublisher example_wire NewPublisher))
       example_plain_subscriber"

definition forwarded :: "publish \<Rightarrow> packet" where
  "forwarded m = \<lparr>pk_Topic = pub_Topic m, pk_QoS = pub_QoS m, pk_Retain = False, pk_Payload = pub_Payload m,
     pk_Properties = Some \<lparr>pk_TopicAlias = None, pk_User = message_properties m\<rparr>\<rparr>"

lemma forwards_forwarded: "forwards m (forwarded m)"
  by (simp add: forwards_def forwarded_def packet_user_def alias_of_def)

lemma echo_client_simps:
  "c_publishers echo_client = [BuildPublisher example_wire NewPublisher]"
  "c_subscribers echo_client = [example_plain_subscriber]"
  by (simp_all add: echo_client_def AddSubscriber_def AddPublisher_def NewClient_def example_config_def Let_def)

lemma echo_client_well_built: "well_built echo_client"
proof -
  obtain c :: "(string, byte, string) client" where c: "NewClient example_config = Some c"
    by (simp add: NewClient_def example_config_def Let_def)
  then show ?thesis
    using NewClient_well_built [OF c] example_plain_wired by (simp add: echo_client_def Add_well_built)
qed

lemma echo_client_started:
  "\<exists>s p. (life_step example_runtime example_conversion ''ctx'')\<^sup>*\<^sup>* (begin_life example_runtime echo_client ''ctx'') s
     \<and> l_start s = Started \<and> p \<in> set (c_publishers (l_client s)) \<and> p_wireFormat p = Some example_wire
     \<and> resolveMapping example_runtime p ''dev'' (Some 5) example_fields = Ret (Inr (''dev'', 1, False))"
proof -
  obtain s where s: "(life_step example_runtime example_conversion ''ctx'')\<^sup>*\<^sup>* (begin_life example_runtime echo_client ''ctx'') s"
    "l_events s = [ConnectionUp example_manager, StartReturns example_manager StartReady]" "l_start s = Started"
    using start_can_succeed [OF echo_client_well_built] by blast
  have "wiring_inv echo_client s"
    using life_invD(2) [OF reachable_life_inv [OF example_converts echo_client_well_built s(1)]] .
  then have "c_publishers (l_client s) =
      [SetPublishFunc (BuildPublisher example_wire NewPublisher) (Some (mgr_Publish example_manager))]"
    by (simp add: wiring_inv_def Let_def s(2) managers_Cons echo_client_simps wire_publishers_def)
  with s show ?thesis
    by (intro exI [of _ s]) (simp add: SetPublishFunc_def BuildPublisher_def Let_def NewPublisher_def
        resolveMapping_def DefaultTopicVerbatim_def DefaultTopicIgnore_def DefaultTopicError_def)
qed

theorem event_crosses_bridge_witness:
  "\<exists>s p m c fs s' c' flds.
     (life_step example_runtime example_conversion ''ctx'')\<^sup>*\<^sup>* (begin_life example_runtime echo_client ''ctx'') s
     \<and> p \<in> set (c_publishers (l_client s))
     \<and> pub_calls (effects (OnEvent example_runtime p ''tp'' ''dev'' (Some 5) example_fields)) = [(c, m)]
     \<and> life_event example_runtime example_conversion ''ctx'' s (PacketIn (forwarded m)) = (fs, Ret s')
     \<and> client_events fs = [(c', ''dev'', Some 5, flds)] \<and> gm_get flds ''a'' = Some ''b''"
proof -
  obtain s p where s: "(life_step example_runtime example_conversion ''ctx'')\<^sup>*\<^sup>* (begin_life example_runtime echo_client ''ctx'') s"
    "l_start s = Started" "p \<in> set (c_publishers (l_client s))" "p_wireFormat p = Some example_wire"
    "resolveMapping example_runtime p ''dev'' (Some 5) example_fields = Ret (Inr (''dev'', 1, False))"
    using echo_client_started by blast
  have reads: "\<forall>u \<in> set (c_subscribers echo_client). reads_value u (Some [5]) (Some 5)"
    by (simp add: echo_client_simps reads_value_def example_plain_simps example_wire_def)
       (simp add: example_plain_subscriber_def)
  have "wf_Serialize example_wire (Some 5) = Inr (Some [5])"
    by (simp add: example_wire_def)
  from event_crosses_bridge [OF example_ranges_ok example_injects_headers example_converts
      echo_client_well_built echo_client_well_built s(1,2) s(1) s(3,4,5) _ this _ reads, of "''tp''"]
  obtain c m where m: "pub_calls (effects (OnEvent example_runtime p ''tp'' ''dev'' (Some 5) example_fields)) = [(c, m)]"
    and fwd: "\<forall>pb. forwards m pb \<longrightarrow> (\<exists>fs s'.
         life_event example_runtime example_conversion ''ctx'' s (PacketIn pb) = (fs, Ret s')
         \<and> list_all2 (hands_on example_runtime ''dev'' (Some 5) example_fields)
             (filter (\<lambda>u. \<exists>f \<in> set (MQTTPatterns u). Matches example_runtime f ''dev'') (c_subscribers echo_client))
             (client_events fs))"
    by auto
  obtain fs s' where run: "life_event example_runtime example_conversion ''ctx'' s (PacketIn (forwarded m)) = (fs, Ret s')"
    and events: "list_all2 (hands_on example_runtime ''dev'' (Some 5) example_fields)
      (filter (\<lambda>u. \<exists>f \<in> set (MQTTPatterns u). Matches example_runtime f ''dev'') (c_subscribers echo_client))
      (client_events fs)"
    using fwd forwards_forwarded by blast
  have "filter (\<lambda>u. \<exists>f \<in> set (MQTTPatterns u). Matches example_runtime f ''dev'') (c_subscribers echo_client)
      = [example_plain_subscriber]"
    by (simp add: echo_client_simps MQTTPatterns_def example_plain_subscriber_def example_subscription_def)
  with events obtain ev where ev: "client_events fs = [ev]"
    "hands_on example_runtime ''dev'' (Some 5) example_fields example_plain_subscriber ev"
    by (auto simp: list_all2_Cons1)
  then obtain c' flds where "ev = (c', ''dev'', Some 5, flds)"
    "gm_get flds = (\<lambda>k. if isTrace k then None else gm_get example_fields k)
        ++ gm_get (Extract example_runtime ''+id'' ''dev'')"
    by (auto simp: hands_on_def example_plain_found example_subscription_def)
  with s(1,3) m run ev(1) show ?thesis
    by (intro exI [of _ s] exI [of _ p] exI [of _ m] exI [of _ c] exI [of _ fs] exI [of _ s']
          exI [of _ c'] exI [of _ flds])
       (auto simp: isTrace_def traceHeaders_def example_fields_def map_add_def)
qed

end
