(* ===== verification/Ledger.thy ===== *)
theory Ledger
  imports Publisher Subscriber "HOL-Library.Multiset"
begin

text \<open>
  The books over whole histories (src/publisher/publisher.go, src/subscriber/subscriber.go and
  their metrics.go). \<open>accounted\<close> and \<open>balanced\<close> say what one call measures; here the counters a
  metrics backend shows after any sequence of calls are compared with what the calls did. A
  backend adds up a counter per instrument and attributes, so a total is asked for by the name
  of the instrument and the attributes that matter.
\<close>

section \<open>Totals\<close>

definition on_series :: "string \<Rightarrow> attribute list \<Rightarrow> measurement \<Rightarrow> bool" where
  "on_series name attrs m \<longleftrightarrow> i_Name (m_Instrument m) = name \<and> set attrs \<subseteq> set (m_Attrs m)"

fun added :: "reading \<Rightarrow> int" where
  "added (Add n) = n"
| "added _ = 0"

definition total :: "string \<Rightarrow> attribute list \<Rightarrow> measurement list \<Rightarrow> int" where
  "total name attrs ms = sum_list (map (added \<circ> m_Reading) (filter (on_series name attrs) ms))"

definition recordings :: "string \<Rightarrow> attribute list \<Rightarrow> measurement list \<Rightarrow> int" where
  "recordings name attrs ms = int (length (filter (on_series name attrs) ms))"

abbreviation on_topic :: "string \<Rightarrow> attribute" where
  "on_topic t \<equiv> (''messaging.destination.name'', t)"

lemma totals_simps [simp]:
  "total name attrs [] = 0" "recordings name attrs [] = 0"
  "total name attrs (ms @ ns) = total name attrs ms + total name attrs ns"
  "recordings name attrs (ms @ ns) = recordings name attrs ms + recordings name attrs ns"
  by (simp_all add: total_def recordings_def)

text \<open>
  A tally of measurements adds up over a history, which is a list of calls. If it says of the
  measurements of each call whether the call had a certain outcome, or how often it did
  something, then it counts these over the whole history. Calls may overlap: the measurements of
  the history may reach the backend in any order.
\<close>

locale tally =
  fixes tally :: "'m list \<Rightarrow> int"
  assumes tally_Nil: "tally [] = 0"
    and tally_append: "tally (ms @ ns) = tally ms + tally ns"
begin

lemma tally_elements: "tally ms = (\<Sum>m\<in>#mset ms. tally [m])"
proof (induction ms)
  case (Cons m ms)
  then show ?case using tally_append [of "[m]" ms] by simp
qed (simp add: tally_Nil)

lemma tally_order: "mset ms = mset ns \<Longrightarrow> tally ms = tally ns"
  using tally_elements [of ms] tally_elements [of ns] by simp

lemma counts_calls:
  assumes "mset ms = mset (concat (map run is))" and "\<And>i. i \<in> set is \<Longrightarrow> tally (run i) = of_bool (hit i)"
  shows "tally ms = int (length (filter hit is))"
  unfolding tally_order [OF assms(1)]
  using assms(2) by (induction "is") (simp_all add: tally_Nil tally_append)

lemma counts_deeds:
  assumes "mset ms = mset (concat (map run is))" and "\<And>i. i \<in> set is \<Longrightarrow> tally (run i) = int (length (did i))"
  shows "tally ms = int (length (concat (map did is)))"
  unfolding tally_order [OF assms(1)]
  using assms(2) by (induction "is") (simp_all add: tally_Nil tally_append)

end

interpretation totals: tally "total name attrs" for name attrs
  by unfold_locales (simp_all add: total_def)

interpretation durations: tally "recordings name attrs" for name attrs
  by unfold_locales (simp_all add: recordings_def)

text \<open>What two counters show together.\<close>

interpretation both: tally "\<lambda>ms. total name attrs ms + total name' attrs' ms" for name attrs name' attrs'
  by unfold_locales simp_all

section \<open>Labels\<close>

lemma SM_tagged: "list_all (tagged name) (SM_RecordReceived (NewSubscriberMetrics name meter) t)"
  "list_all (tagged name) (SM_RecordError (NewSubscriberMetrics name meter) t x)"
  "list_all (tagged name) (SM_RecordProcessDuration (NewSubscriberMetrics name meter) t d)"
  by (auto simp: metrics_defs tagged_def Let_def split: option.split)

lemma PM_tagged: "list_all (tagged name) (PM_RecordSent (NewPublisherMetrics name meter) t)"
  "list_all (tagged name) (PM_RecordError (NewPublisherMetrics name meter) t)"
  "list_all (tagged name) (PM_RecordPublishDuration (NewPublisherMetrics name meter) t d)"
  by (auto simp: metrics_defs tagged_def Let_def split: option.split)

lemma sub_measures_simps [simp]:
  "sub_measurements (effects (deliver rt s ctx remote msg topic v flds)) =
     (if s_subscriber s = None then []
      else SM_RecordProcessDuration (s_metrics s) (pub_Topic msg) (since_start rt)
        @ (if outcome (deliver rt s ctx remote msg topic v flds) = Ret None
           then SM_RecordReceived (s_metrics s) (pub_Topic msg)
           else SM_RecordError (s_metrics s) (pub_Topic msg) ''subscriber''))"
  by (simp add: deliver_def Let_def split: option.splits)

text \<open>Every measurement that a publisher or a subscriber makes carries the name of the client
  that its builder was given, whichever branch makes it.\<close>

theorem measurements_labelled:
  "list_all (tagged (pb_clientName b)) (pub_measurements (effects
      (OnEvent rt (SetPublishFunc (BuildPublisher auto b) fn) ctx topic v flds)))
   \<and> (case BuildSubscriber auto (foldl (set_subscriber_option byName) NewSubscriber opts) of
        Inl _ \<Rightarrow> True
      | Inr s \<Rightarrow> list_all
          (tagged (sb_clientName (foldl (set_subscriber_option byName) NewSubscriber opts)))
          (sub_measurements (effects (HandleMessage rt s ctx msg))))"
  (is "list_all _ (pub_measurements (effects (OnEvent rt ?p ctx topic v flds))) \<and> (case ?s of Inl _ \<Rightarrow> True | Inr s \<Rightarrow> ?tagged s)")
proof
  obtain meter where pm: "p_metrics ?p = NewPublisherMetrics (pb_clientName b) meter"
    by (simp add: SetPublishFunc_def BuildPublisher_def Let_def)
  obtain wfm where "p_wireFormat ?p = Some wfm"
    by (simp add: built_wireFormat)
  then show "list_all (tagged (pb_clientName b)) (pub_measurements (effects (OnEvent rt ?p ctx topic v flds)))"
  proof (cases rule: OnEvent_cases [of ?p wfm rt ctx topic v flds])
    case (Sent fn t q r body)
    then show ?thesis by (simp add: send_measurements pm PM_tagged split: outcome.split option.split)
  qed (simp_all add: pm PM_tagged)
next
  show "case ?s of Inl _ \<Rightarrow> True | Inr s \<Rightarrow> ?tagged s"
  proof (cases ?s)
    case (Inr s)
    then have wired: "wired s" by (rule built_from_options_wired)
    obtain meter where sm: "s_metrics s = NewSubscriberMetrics
        (sb_clientName (foldl (set_subscriber_option byName) NewSubscriber opts)) meter"
      using Inr by (auto simp: BuildSubscriber_def Let_def split: if_splits)
    obtain wfm where "s_wireFormat s = Some wfm"
      using wired_format [OF wired] by blast
    with wired have "?tagged s"
    proof (cases rule: HandleMessage_cases [of s wfm msg rt ctx])
      case (Undecodable sub e)
      then show ?thesis
        by (simp add: decodeFailed_effects [OF wired] sm SM_tagged split: option.split)
    qed (simp_all add: sm SM_tagged)
    with Inr show ?thesis by simp
  qed simp
qed


section \<open>The books of a subscriber\<close>

text \<open>How the error counter names each error that \<open>HandleMessage\<close> returns.\<close>

fun error_type :: "'e sub_error \<Rightarrow> string" where
  "error_type (NoSubscriptionMatched t) = ''subscription''"
| "error_type (DeserializePayload t e) = ''deserialize''"
| "error_type (ResolveVinculumTopic t e) = ''vinculum_topic''"
| "error_type (Downstream e) = ''subscriber''"

text \<open>What one measurement adds to a total, for a metrics object made with a meter.\<close>

lemma sub_totals [simp]:
  "total ''messaging.client.consumed.messages'' [on_topic t]
     (SM_RecordReceived (NewSubscriberMetrics name (Some meter)) u) = of_bool (u = t)"
  "total ''messaging.client.consumed.messages'' attrs
     (SM_RecordError (NewSubscriberMetrics name (Some meter)) u x) = 0"
  "total ''messaging.client.consumed.messages'' attrs
     (SM_RecordProcessDuration (NewSubscriberMetrics name (Some meter)) u d) = 0"
  "total ''mqtt.subscriber.errors'' attrs
     (SM_RecordReceived (NewSubscriberMetrics name (Some meter)) u) = 0"
  "total ''messaging.client.consumed.messages'' []
     (SM_RecordReceived (NewSubscriberMetrics name (Some meter)) u) = 1"
  "total ''mqtt.subscriber.errors'' [] (SM_RecordError (NewSubscriberMetrics name (Some meter)) u x) = 1"
  "x \<noteq> '''' \<Longrightarrow> total ''mqtt.subscriber.errors'' [on_topic t, (''error.type'', k)]
     (SM_RecordError (NewSubscriberMetrics name (Some meter)) u x) = of_bool (u = t \<and> x = k)"
  "total ''mqtt.subscriber.errors'' attrs
     (SM_RecordProcessDuration (NewSubscriberMetrics name (Some meter)) u d) = 0"
  "recordings ''messaging.process.duration'' attrs
     (SM_RecordReceived (NewSubscriberMetrics name (Some meter)) u) = 0"
  "recordings ''messaging.process.duration'' attrs
     (SM_RecordError (NewSubscriberMetrics name (Some meter)) u x) = 0"
  "recordings ''messaging.process.duration'' [on_topic t]
     (SM_RecordProcessDuration (NewSubscriberMetrics name (Some meter)) u d) = of_bool (u = t)"
  by (auto simp: total_def recordings_def on_series_def metrics_defs sub_topicAttr_def Let_def)

lemma HandleMessage_totals:
  fixes rt :: "'c runtime"
  assumes "wired s" and m: "s_metrics s = NewSubscriberMetrics name (Some meter)"
  defines "run \<equiv> HandleMessage rt s" and "ignored \<equiv> \<lambda>msg. pub_Retain msg \<and> \<not> s_handleRetained s"
  shows "total ''messaging.client.consumed.messages'' [on_topic t] (sub_measurements (effects (run ctx msg))) =
      of_bool (pub_Topic msg = t \<and> \<not> ignored msg \<and> outcome (run ctx msg) = Ret None)" (is ?consumed)
    and "total ''mqtt.subscriber.errors'' [on_topic t, (''error.type'', k)]
        (sub_measurements (effects (run ctx msg))) =
      of_bool (pub_Topic msg = t \<and> (\<exists>e. outcome (run ctx msg) = Ret (Some e) \<and> error_type e = k))" (is ?errors)
    and "recordings ''messaging.process.duration'' [on_topic t] (sub_measurements (effects (run ctx msg))) =
      int (length (if pub_Topic msg = t then sub_events (effects (run ctx msg)) else []))" (is ?timed)
    and "total ''messaging.client.consumed.messages'' [] (sub_measurements (effects (run ctx msg)))
        + total ''mqtt.subscriber.errors'' [] (sub_measurements (effects (run ctx msg))) =
      of_bool (\<not> ignored msg)" (is ?all)
proof -
  obtain wfm ev where wfm: "s_wireFormat s = Some wfm" and ev: "s_subscriber s = Some ev"
    using assms(1) by (auto simp: wired_def)
  note cases = HandleMessage_cases [OF assms(1) wfm, of msg rt ctx]
  note [simp] = run_def ignored_def m ev decodeFailed_effects [OF assms(1)] deliver_events [OF ev]
    deliver_result [OF ev]
  show ?consumed by (cases rule: cases) (simp_all split: option.split)
  show ?errors by (cases rule: cases) (auto split: option.split)
  show ?timed by (cases rule: cases) (simp_all split: option.split)
  show ?all by (cases rule: cases) (simp_all split: option.split)
qed

text \<open>C16: the books of a subscriber over any history. Take a subscriber that was built with a
  meter, and any calls of \<open>HandleMessage\<close>, each in a context of its own; they may overlap, so
  that their measurements come in any order. The consumed counter of a topic is the number of
  messages on it that were delivered and accepted; the error counter of a topic and an error
  type is the number of messages on it that ended with an error of that type; and there is one
  duration under a topic for every event of a message on it that was handed to the bus, accepted
  or not. Every message that is not ignored is counted once, as consumed or as an error.\<close>

theorem subscriber_ledger:
  fixes calls :: "('c \<times> publish) list" and rt :: "'c runtime" and s :: "('c, 'm, 'e) subscriber"
  defines "run \<equiv> \<lambda>(x, msg). HandleMessage rt s x msg"
    and "ignored \<equiv> \<lambda>(x :: 'c, msg). pub_Retain msg \<and> \<not> s_handleRetained s"
    and "ended \<equiv> \<lambda>P. int (length (filter P calls))"
  assumes "BuildSubscriber auto (foldl (set_subscriber_option byName) NewSubscriber opts) = Inr s"
    and "sb_meterProvider (foldl (set_subscriber_option byName) NewSubscriber opts) \<noteq> None"
    and "mset ms = mset (concat (map (\<lambda>c. sub_measurements (effects (run c))) calls))"
  shows "total ''messaging.client.consumed.messages'' [on_topic t] ms =
      ended (\<lambda>c. pub_Topic (snd c) = t \<and> \<not> ignored c \<and> outcome (run c) = Ret None)
    \<and> total ''mqtt.subscriber.errors'' [on_topic t, (''error.type'', k)] ms =
      ended (\<lambda>c. pub_Topic (snd c) = t \<and> (\<exists>e. outcome (run c) = Ret (Some e) \<and> error_type e = k))
    \<and> recordings ''messaging.process.duration'' [on_topic t] ms =
      int (length (concat (map (\<lambda>c. if pub_Topic (snd c) = t then sub_events (effects (run c)) else []) calls)))
    \<and> total ''messaging.client.consumed.messages'' [] ms + total ''mqtt.subscriber.errors'' [] ms =
      ended (\<lambda>c. \<not> ignored c)"
proof -
  have wired: "wired s" by (rule built_from_options_wired [OF assms(4)])
  obtain name meter where m: "s_metrics s = NewSubscriberMetrics name (Some meter)"
    using assms(4,5) by (auto simp: BuildSubscriber_def Let_def split: if_splits)
  note totals = HandleMessage_totals [OF wired m, where rt = rt]
  show ?thesis
    unfolding ended_def
    by (intro conjI totals.counts_calls [OF assms(6)] durations.counts_deeds [OF assms(6)]
          both.counts_calls [OF assms(6)])
       (simp_all only: totals run_def ignored_def case_prod_beta)
qed

section \<open>The books of a publisher\<close>

lemma pub_totals [simp]:
  "total ''messaging.client.sent.messages'' [on_topic t]
     (PM_RecordSent (NewPublisherMetrics name (Some meter)) u) = of_bool (u = t)"
  "total ''messaging.client.sent.messages'' attrs
     (PM_RecordError (NewPublisherMetrics name (Some meter)) u) = 0"
  "total ''messaging.client.sent.messages'' attrs
     (PM_RecordPublishDuration (NewPublisherMetrics name (Some meter)) u d) = 0"
  "total ''mqtt.publisher.errors'' attrs
     (PM_RecordSent (NewPublisherMetrics name (Some meter)) u) = 0"
  "total ''mqtt.publisher.errors'' [] (PM_RecordError (NewPublisherMetrics name (Some meter)) u) = 1"
  "total ''mqtt.publisher.errors'' attrs
     (PM_RecordPublishDuration (NewPublisherMetrics name (Some meter)) u d) = 0"
  "recordings ''messaging.client.operation.duration'' attrs
     (PM_RecordSent (NewPublisherMetrics name (Some meter)) u) = 0"
  "recordings ''messaging.client.operation.duration'' attrs
     (PM_RecordError (NewPublisherMetrics name (Some meter)) u) = 0"
  "recordings ''messaging.client.operation.duration'' [on_topic t]
     (PM_RecordPublishDuration (NewPublisherMetrics name (Some meter)) u d) = of_bool (u = t)"
  by (auto simp: total_def recordings_def on_series_def metrics_defs topicAttr_def Let_def)

text \<open>The broker calls of an event that the publish function it found has accepted.\<close>

definition accepted_calls :: "('c, 'm, 'e) publisher \<Rightarrow> ('c, 'e) pub_effect list \<Rightarrow> ('c \<times> publish) list" where
  "accepted_calls p fs =
     (case p_publishFunc p of
        None \<Rightarrow> []
      | Some fn \<Rightarrow> filter (\<lambda>(c, m). fn c m = None) (pub_calls fs))"

lemma accepted_calls_simps [simp]:
  "accepted_calls p [] = []" "accepted_calls p (pub_measures ms) = []"
  by (simp_all add: accepted_calls_def split: option.split)

lemma OnEvent_totals:
  assumes "p_wireFormat p = Some wfm" and m: "p_metrics p = NewPublisherMetrics name (Some meter)"
    and "OnEvent rt p ctx topic v flds = (fs, out)"
  shows "total ''messaging.client.sent.messages'' [on_topic t] (pub_measurements fs) =
      int (length (filter (\<lambda>c. pub_Topic (snd c) = t) (accepted_calls p fs)))" (is ?sent)
    and "recordings ''messaging.client.operation.duration'' [on_topic t] (pub_measurements fs) =
      int (length (filter (\<lambda>c. pub_Topic (snd c) = t) (accepted_calls p fs)))" (is ?timed)
    and "total ''mqtt.publisher.errors'' [] (pub_measurements fs) =
      of_bool (\<exists>e. out = Ret (Some e) \<and> e \<noteq> NotYetConnected)" (is ?errors)
proof -
  have run: "fs = effects (OnEvent rt p ctx topic v flds)" "out = outcome (OnEvent rt p ctx topic v flds)"
    using assms(3) by simp_all
  note cases = OnEvent_cases [OF assms(1), of rt ctx topic v flds]
  note [simp] = run m send_measurements send_result send_calls accepted_calls_def
  show ?sent by (cases rule: cases) (auto split: option.split)
  show ?timed by (cases rule: cases) (auto split: option.split)
  show ?errors
    using assms(1)
  proof (cases rule: OnEvent_cases [of p wfm rt ctx topic v flds])
    case (Unresolved fn e)
    then show ?thesis using resolveMapping_Inl [OF Unresolved(2)] by auto
  qed (auto split: option.split)
qed

text \<open>C17: the books of a publisher over any history. Take a publisher that was built with a meter,
  and any calls of \<open>OnEvent\<close>, each with the publish function it found, or none before the
  connection; they may overlap, so that their measurements come in any order. The sent counter
  of a topic is the number of broker calls on it that succeeded, and each has one duration; the
  error counter is the number of events that ended in an error, except those that came before
  the connection, which are not counted at all.\<close>

theorem publisher_ledger:
  fixes calls :: "(('c, 'e) publish_func option \<times> 'c \<times> string \<times> 'm any \<times> (string, string) gomap) list"
    and auto :: "('m, 'e) wire_format" and b :: "('m, 'e) publisher_builder" and rt :: "'c runtime"
  defines "found \<equiv> \<lambda>fn. SetPublishFunc (BuildPublisher auto b) fn :: ('c, 'm, 'e) publisher"
  defines "run \<equiv> \<lambda>(fn, x, topic, v, flds). OnEvent rt (found fn) x topic v flds"
  defines "accepted \<equiv> \<lambda>c. accepted_calls (found (fst c)) (effects (run c))"
  assumes "pb_meterProvider b \<noteq> None"
    and "mset ms = mset (concat (map (\<lambda>c. pub_measurements (effects (run c))) calls))"
  shows "total ''messaging.client.sent.messages'' [on_topic t] ms =
      int (length (filter (\<lambda>c. pub_Topic (snd c) = t) (concat (map accepted calls))))
    \<and> recordings ''messaging.client.operation.duration'' [on_topic t] ms =
      int (length (filter (\<lambda>c. pub_Topic (snd c) = t) (concat (map accepted calls))))
    \<and> total ''mqtt.publisher.errors'' [] ms =
      int (length (filter (\<lambda>c. \<exists>e. outcome (run c) = Ret (Some e) \<and> e \<noteq> NotYetConnected) calls))"
proof -
  obtain wfm where wfm: "p_wireFormat (found fn) = Some wfm" for fn
    unfolding found_def using built_wireFormat by metis
  obtain meter where m: "p_metrics (found fn) = NewPublisherMetrics (pb_clientName b) (Some meter)" for fn
    using assms(4) by (auto simp: found_def SetPublishFunc_def BuildPublisher_def Let_def)
  have run: "OnEvent rt (found (fst c)) (fst (snd c)) (fst (snd (snd c))) (fst (snd (snd (snd c))))
      (snd (snd (snd (snd c)))) = (effects (run c), outcome (run c))" for c
    by (simp add: run_def case_prod_beta)
  note totals = OnEvent_totals [OF wfm m run]
  show ?thesis
    unfolding filter_concat map_map
    by (intro conjI totals.counts_calls [OF assms(5)] totals.counts_deeds [OF assms(5)]
          durations.counts_deeds [OF assms(5)])
       (simp_all only: totals comp_def accepted_def case_prod_beta)
qed

section \<open>Witnesses\<close>

text \<open>The example's subscriber with a meter, and two calls: a message that the bus rejects, and a
  retained one, which it ignores.\<close>

definition metered_options :: "(string, byte, string) subscriber_option list" where
  "metered_options = example_options @ [WithSubClientName ''dev'', WithSubMeterProvider (Some ''mp'')]"

definition metered_subscriber :: "(string, byte, string) subscriber" where
  "metered_subscriber = example_subscriber\<lparr>s_metrics := NewSubscriberMetrics ''dev'' (Some ''m'')\<rparr>"

lemma metered_subscriber_built:
  "BuildSubscriber example_wire (foldl (set_subscriber_option (\<lambda>_. None)) NewSubscriber metered_options)
     = Inr metered_subscriber"
  by (simp add: BuildSubscriber_def metered_options_def example_options_def NewSubscriber_def
      metered_subscriber_def example_subscriber_def example_subscription_def completeSubscription_def
      NewSubscriberMetrics_def)

lemma metered_simps [simp]:
  "s_wireFormat metered_subscriber = Some example_wire" "s_subscriber metered_subscriber = Some example_sink"
  "s_handleRetained metered_subscriber = False" "s_tracerProvider metered_subscriber = None"
  "findSubscription example_runtime metered_subscriber ''dev'' = Inr example_subscription"
  by (simp_all add: metered_subscriber_def example_subscriber_def findSubscription_def example_subscription_def)

lemma metered_rejected:
  "outcome (HandleMessage example_runtime metered_subscriber x example_message) = Ret (Some (Downstream ''full''))"
  "length (sub_events (effects (HandleMessage example_runtime metered_subscriber x example_message))) = 1"
proof -
  have wired: "wired metered_subscriber"
    by (rule built_from_options_wired [OF metered_subscriber_built])
  have [simp]: "pub_Topic example_message = ''dev''" "\<not> pub_Retain example_message"
    "decoded example_wire example_message = Inr (Some 9)"
    by (simp_all add: example_message_def decoded_def example_wire_def)
  have [simp]: "vinculumTopic example_subscription example_message flds v \<noteq> Inl e" for flds v e
    by (simp add: vinculumTopic_def example_subscription_def)
  note cases = HandleMessage_cases [OF wired metered_simps(1), of example_message example_runtime x]
  show "outcome (HandleMessage example_runtime metered_subscriber x example_message) =
      Ret (Some (Downstream ''full''))"
    by (cases rule: cases) (auto simp: deliver_result example_sink_def)
  show "length (sub_events (effects (HandleMessage example_runtime metered_subscriber x example_message))) = 1"
    by (cases rule: cases) (auto simp: deliver_events)
qed

lemma subscriber_ledger_witness:
  "\<exists>ms. total ''messaging.client.consumed.messages'' [] ms + total ''mqtt.subscriber.errors'' [] ms = 1
    \<and> total ''mqtt.subscriber.errors'' [on_topic ''dev'', (''error.type'', ''subscriber'')] ms = 1
    \<and> recordings ''messaging.process.duration'' [on_topic ''dev''] ms = 1"
proof -
  let ?run = "\<lambda>(x, msg). HandleMessage example_runtime metered_subscriber x msg"
  let ?calls = "[(''ctx'', example_message), (''ctx'', example_message\<lparr>pub_Retain := True\<rparr>)]"
  let ?ms = "concat (map (\<lambda>c. sub_measurements (effects (?run c))) ?calls)"
  have meter: "sb_meterProvider (foldl (set_subscriber_option (\<lambda>_. None)) NewSubscriber metered_options) \<noteq> None"
    by (simp add: metered_options_def)
  have "HandleMessage example_runtime metered_subscriber ''ctx'' (example_message\<lparr>pub_Retain := True\<rparr>) = ([], Ret None)"
    by (simp add: HandleMessage_def ret_def)
  moreover have "pub_Topic example_message = ''dev''" "\<not> pub_Retain example_message"
    by (simp_all add: example_message_def)
  ultimately show ?thesis
    using subscriber_ledger [OF metered_subscriber_built meter, where rt = example_runtime and calls = ?calls
        and ms = ?ms and t = "''dev''" and k = "''subscriber''", OF refl]
    by (intro exI [of _ ?ms]) (simp add: metered_rejected)
qed

text \<open>A publisher with a meter, and three events: one before the connection, one that the broker
  accepts and one that it refuses.\<close>

definition metered_builder :: "(byte, string) publisher_builder" where
  "metered_builder = NewPublisher\<lparr>pb_meterProvider := Some ''mp'', pb_clientName := ''dev''\<rparr>"

lemma publisher_ledger_witness:
  "\<exists>ms. total ''messaging.client.sent.messages'' [on_topic ''dev''] ms = 1
    \<and> recordings ''messaging.client.operation.duration'' [on_topic ''dev''] ms = 1
    \<and> total ''mqtt.publisher.errors'' [] ms = 1"
proof -
  let ?found = "\<lambda>fn. SetPublishFunc (BuildPublisher example_wire metered_builder) fn :: (string, byte, string) publisher"
  let ?run = "\<lambda>(fn, x, topic, v, flds). OnEvent example_runtime (?found fn) x topic v flds"
  let ?event = "\<lambda>fn. (fn, ''ctx'', ''dev'', Some (5 :: byte), None :: (string, string) gomap)"
  let ?calls = "[?event None, ?event (Some (\<lambda>x m. None)), ?event (Some (\<lambda>x m. Some ''refused''))]"
  let ?ms = "concat (map (\<lambda>c. pub_measurements (effects (?run c))) ?calls)"
  have meter: "pb_meterProvider metered_builder \<noteq> None"
    by (simp add: metered_builder_def)
  have "resolveMapping example_runtime (?found fn) ''dev'' (Some 5) None = Ret (Inr (''dev'', 1, False))" for fn
    by (simp add: SetPublishFunc_def BuildPublisher_def metered_builder_def Let_def NewPublisher_def
        resolveMapping_def DefaultTopicVerbatim_def DefaultTopicIgnore_def DefaultTopicError_def)
  moreover have "p_wireFormat (?found fn) = Some example_wire" "p_publishFunc (?found fn) = fn" for fn
    by (simp_all add: SetPublishFunc_def BuildPublisher_def metered_builder_def Let_def NewPublisher_def)
  moreover have "wf_Serialize example_wire (Some 5) = Inr (Some [5])"
    by (simp add: example_wire_def)
  ultimately show ?thesis
    using publisher_ledger [OF meter, where rt = example_runtime and auto = example_wire and calls = ?calls
        and ms = ?ms and t = "''dev''", OF refl]
    by (intro exI [of _ ?ms]) (simp add: OnEvent_def accepted_calls_def send_calls send_result ret_def)
qed

end
