(* ===== verification/Account.thy ===== *)
theory Account
  imports Bridge Ledger
begin

text \<open>
  What the subscribers of a client have done over its whole life (src/client, src/subscriber):
  the router, the callbacks and \<open>HandleMessage\<close> together, from the packets that have come in to
  the events on the bus and the counters of the subscribers.
\<close>

section \<open>The messages a client has received\<close>

text \<open>The topic a packet is on, given what has happened to the client.\<close>

definition topic_on :: "('c, 'e) event list \<Rightarrow> packet \<Rightarrow> string" where
  "topic_on evs pb =
     (case alias_of pb of
        None \<Rightarrow> pk_Topic pb
      | Some a \<Rightarrow>
          if pk_Topic pb \<noteq> '''' then pk_Topic pb
          else (case announced (rev (link_events evs)) a of None \<Rightarrow> '''' | Some t \<Rightarrow> t))"

lemma resolved_topic:
  assumes "gm_get (aliases r) = announced (rev (link_events evs))"
  shows "snd (resolved r pb) = topic_on evs pb"
  using assms by (simp add: resolved_def topic_on_def gm_index_def split: option.split)

lemma client_topic:
  assumes "converts fp" "well_built c0" "life_inv rt fp ctx c0 s"
  shows "snd (resolved (r_router (l_run s)) pb) = topic_on (l_events s) pb"
proof (rule resolved_topic)
  let ?r = "buildRouter rt c0 ctx"
  have "well_formed ?r" "\<forall>e \<in> set (entries ?r). returns e" "gm_get (aliases ?r) = Map.empty"
    using client_entries_return [OF assms(2)]
    by (simp_all add: buildRouter_eq newSubscriberRouter_def well_formed_def)
  from link_run_state [OF assms(1) this, of rt "link_events (l_events s)"]
  show "gm_get (aliases (r_router (l_run s))) = announced (rev (link_events (l_events s)))"
    using life_invD(4) [OF assms(3)] by (simp add: router_inv_def)
qed

text \<open>The messages of a history, latest event first: each packet on its topic, if it has one.\<close>

fun received :: "('c, 'e) event list \<Rightarrow> publish list" where
  "received [] = []"
| "received (PacketIn pb # es) = received es
     @ (if topic_on (rev es) pb = '''' then [] else [message_of pb (topic_on (rev es) pb)])"
| "received (e # es) = received es"

definition recipients :: "'c runtime \<Rightarrow> ('c, 'm, 'e) client \<Rightarrow> publish \<Rightarrow> ('c, 'm, 'e) subscriber list" where
  "recipients rt c m = filter (\<lambda>u. \<exists>p \<in> set (MQTTPatterns u). Matches rt p (pub_Topic m)) (c_subscribers c)"

text \<open>All calls of \<open>HandleMessage\<close> that these messages lead to.\<close>

definition handlings ::
  "'c runtime \<Rightarrow> ('c, 'm, 'e) client \<Rightarrow> publish list \<Rightarrow> (publish \<times> ('c, 'm, 'e) subscriber) list" where
  "handlings rt c ms = concat (map (\<lambda>m. map (Pair m) (recipients rt c m)) ms)"

lemma handlings_simps [simp]:
  "handlings rt c [] = []" "handlings rt c (ms @ ns) = handlings rt c ms @ handlings rt c ns"
  "handlings rt c [m] = map (Pair m) (recipients rt c m)"
  by (simp_all add: handlings_def)

section \<open>What the subscribers have done\<close>

lemma quiet_effects [simp]:
  "subscriber_effects (up_effects c first ctx cm) = []" "subscriber_effects (down_effects c ctx) = []"
  "subscriber_effects (map limiter_line ls) = []"
proof -
  show "subscriber_effects (up_effects c first ctx cm) = []"
    by (auto simp: up_effects_def split: option.split)
  show "subscriber_effects (down_effects c ctx) = []"
    by (auto simp: down_effects_def split: option.split)
  show "subscriber_effects (map limiter_line ls) = []"
  proof (induction ls)
    case (Cons l ls)
    then show ?case by (cases l) simp_all
  qed simp
qed

definition subscribers_did ::
  "'c runtime \<Rightarrow> 'c \<Rightarrow> ('c, 'm, 'e) client \<Rightarrow> publish list \<Rightarrow> ('c, 'm, 'e) sub_effect list" where
  "subscribers_did rt ctx c ms =
     concat (map (\<lambda>(m, u). effects (HandleMessage rt u ctx m)) (handlings rt c ms))"

lemma subscribers_did_simps [simp]:
  "subscribers_did rt ctx c [] = []"
  "subscribers_did rt ctx c (ms @ ns) = subscribers_did rt ctx c ms @ subscribers_did rt ctx c ns"
  by (simp_all add: subscribers_did_def)

text \<open>One event: nothing for a subscriber to do, unless it is a packet on some topic.\<close>

lemma event_subscribers:
  assumes "converts fp" "well_built c0" "life_inv rt fp ctx c0 s"
    and "life_event rt fp ctx s e = (fs, Ret s')"
  shows "subscriber_effects fs =
    subscribers_did rt ctx c0 (drop (length (received (rev (l_events s)))) (received (rev (l_events s @ [e]))))"
proof -
  note inv = life_invD [OF assms(3)]
  have built: "c_logger c0 \<noteq> None"
    using assms(2) by (simp add: well_built_def)
  have log: "c_logger (l_client s) \<noteq> None" and first: "r_firstConn (l_run s) \<Longrightarrow> \<not> r_readyClosed (l_run s)"
    using inv(1,2) built by (simp_all add: same_setup_def wiring_inv_def Let_def)
  show ?thesis
  proof (cases e)
    case (ConnectionUp cm)
    then show ?thesis using assms(4) by (auto simp: event_ConnectionUp [OF log first] simp del: life_event.simps)
  next
    case ConnectionDown
    then show ?thesis using assms(4) by (auto simp: event_ConnectionDown simp del: life_event.simps)
  next
    case (AttemptFailed x)
    obtain g ls l where "limiter_step (r_limiter (l_run s)) Fail = (ls, Ret l)"
      by (rule limiter_invE [OF inv(6) built, where a = Fail])
    with AttemptFailed show ?thesis using assms(4) by (auto simp: event_AttemptFailed [OF log] simp del: life_event.simps)
  next
    case (PacketIn pb)
    have "router_ok rt c0 ctx (r_router (l_run s))"
      using inv(4) unfolding router_inv_def by blast
    from event_PacketIn [OF assms(1,2) this, of pb] client_topic [OF assms(1-3), of pb] assms(4) PacketIn
    have "fs = (if topic_on (l_events s) pb = '''' then [] else deliveries rt c0 ctx pb (topic_on (l_events s) pb))"
      by (simp add: case_prod_beta del: life_event.simps)
    with PacketIn show ?thesis
      by (simp add: deliveries_effects subscribers_did_def recipients_def comp_def message_of_def)
  next
    case (StartReturns cm sel)
    then show ?thesis using assms(4) by (auto simp: event_StartReturns simp del: life_event.simps split: if_splits)
  next
    case (StopCall x)
    then show ?thesis using assms(4) by (auto simp: event_StopCall [OF inv(3)] simp del: life_event.simps split: if_splits)
  qed (use assms(4) in \<open>simp_all add: ret_def\<close>)
qed

lemma received_grows:
  "received (e # es) = received es @ drop (length (received es)) (received (e # es))"
  by (cases e) simp_all

definition accounts_inv ::
  "'c runtime \<Rightarrow> (packet \<Rightarrow> publish outcome) \<Rightarrow> 'c \<Rightarrow> ('c, 'm, 'e) client \<Rightarrow> ('c, 'm, 'e) life \<Rightarrow> bool" where
  "accounts_inv rt fp ctx c0 s \<longleftrightarrow> life_inv rt fp ctx c0 s
     \<and> subscriber_effects (l_effects s) = subscribers_did rt ctx c0 (received (rev (l_events s)))"

lemma accounts_begin: "well_built c0 \<Longrightarrow> accounts_inv rt fp ctx c0 (begin_life rt c0 ctx)"
  using begin_life_inv [of c0 rt fp ctx] by (simp add: accounts_inv_def) (simp add: begin_life_def)

lemma accounts_step:
  assumes "converts fp" "well_built c0" "accounts_inv rt fp ctx c0 s" "life_step rt fp ctx s t"
  shows "accounts_inv rt fp ctx c0 t"
  using assms(4)
proof cases
  case (Event e fs s')
  have inv: "life_inv rt fp ctx c0 s"
    using assms(3) by (simp add: accounts_inv_def)
  have "life_inv rt fp ctx c0 t"
    using lifecycle.steps_inv [of rt fp ctx s t c0] assms(1,2,4) inv by blast
  moreover have "subscriber_effects (l_effects t) = subscribers_did rt ctx c0 (received (rev (l_events t)))"
    using event_subscribers [OF assms(1,2) inv Event(3)] assms(3) received_grows [of e "rev (l_events s)"] Event(1)
    by (simp add: accounts_inv_def flip: subscribers_did_simps(2))
  ultimately show ?thesis by (simp add: accounts_inv_def)
qed

interpretation accounts: stepped_invariant
  "begin_life rt c0 ctx" "life_step rt fp ctx"
  "\<lambda>s. converts fp \<and> well_built c0 \<longrightarrow> accounts_inv rt fp ctx c0 s"
  for rt c0 ctx fp
  by unfold_locales (blast intro: accounts_begin accounts_step)+

lemma handlings_mem:
  "(m, u) \<in> set (handlings rt c ms) \<Longrightarrow> m \<in> set ms \<and> u \<in> set (c_subscribers c)
     \<and> (\<exists>p \<in> set (MQTTPatterns u). Matches rt p (pub_Topic m))"
  by (auto simp: handlings_def recipients_def)

lemma matched_not_rejected:
  assumes "wired u" "\<exists>p \<in> set (MQTTPatterns u). Matches rt p (pub_Topic m)"
  shows "outcome (HandleMessage rt u ctx m) \<noteq> Ret (Some (NoSubscriptionMatched t))"
proof -
  obtain wfm ev where wfm: "s_wireFormat u = Some wfm" and ev: "s_subscriber u = Some ev"
    using assms(1) by (auto simp: wired_def)
  have "\<nexists>e. findSubscription rt u (pub_Topic m) = Inl e"
    using assms(2) by (auto simp: findSubscription_Inl_iff)
  then show ?thesis
    by (cases rule: HandleMessage_cases [OF assms(1) wfm, of m rt ctx]) (auto simp: deliver_result [OF ev])
qed

text \<open>The counters over any list of such calls, of subscribers with a meter.\<close>

lemma calls_totals:
  fixes rt :: "'c runtime" and ctx :: 'c and calls :: "(publish \<times> ('c, 'm, 'e) subscriber) list"
  defines "run \<equiv> \<lambda>(m, u :: ('c, 'm, 'e) subscriber). HandleMessage rt u ctx m"
    and "ignored \<equiv> \<lambda>(m, u :: ('c, 'm, 'e) subscriber). pub_Retain m \<and> \<not> s_handleRetained u"
  assumes "\<And>m u. (m, u) \<in> set calls \<Longrightarrow> wired u
      \<and> (\<exists>name meter. s_metrics u = NewSubscriberMetrics name (Some meter))"
    and ms: "mset ms = mset (concat (map (\<lambda>c. sub_measurements (effects (run c))) calls))"
  shows "total ''messaging.client.consumed.messages'' [on_topic t] ms =
        int (length (filter (\<lambda>c. pub_Topic (fst c) = t \<and> \<not> ignored c \<and> outcome (run c) = Ret None) calls))"
    and "total ''mqtt.subscriber.errors'' [on_topic t, (''error.type'', k)] ms =
        int (length (filter (\<lambda>c. pub_Topic (fst c) = t
          \<and> (\<exists>e. outcome (run c) = Ret (Some e) \<and> error_type e = k)) calls))"
    and "total ''messaging.client.consumed.messages'' [] ms + total ''mqtt.subscriber.errors'' [] ms =
        int (length (filter (\<lambda>c. \<not> ignored c) calls))"
proof -
  have one: "total ''messaging.client.consumed.messages'' [on_topic t] (sub_measurements (effects (run c))) =
      of_bool (pub_Topic (fst c) = t \<and> \<not> ignored c \<and> outcome (run c) = Ret None)
    \<and> total ''mqtt.subscriber.errors'' [on_topic t, (''error.type'', k)] (sub_measurements (effects (run c))) =
      of_bool (pub_Topic (fst c) = t \<and> (\<exists>e. outcome (run c) = Ret (Some e) \<and> error_type e = k))
    \<and> total ''messaging.client.consumed.messages'' [] (sub_measurements (effects (run c)))
      + total ''mqtt.subscriber.errors'' [] (sub_measurements (effects (run c))) = of_bool (\<not> ignored c)"
    if c: "c \<in> set calls" for c
  proof -
    obtain name meter where u: "wired (snd c)" "s_metrics (snd c) = NewSubscriberMetrics name (Some meter)"
      using assms(3) [of "fst c" "snd c"] c by auto
    show ?thesis by (simp add: HandleMessage_totals [OF u] run_def ignored_def case_prod_beta)
  qed
  show "total ''messaging.client.consumed.messages'' [on_topic t] ms =
      int (length (filter (\<lambda>c. pub_Topic (fst c) = t \<and> \<not> ignored c \<and> outcome (run c) = Ret None) calls))"
    by (rule totals.counts_calls [OF ms]) (use one in blast)
  show "total ''mqtt.subscriber.errors'' [on_topic t, (''error.type'', k)] ms =
      int (length (filter (\<lambda>c. pub_Topic (fst c) = t
        \<and> (\<exists>e. outcome (run c) = Ret (Some e) \<and> error_type e = k)) calls))"
    by (rule totals.counts_calls [OF ms]) (use one in blast)
  show "total ''messaging.client.consumed.messages'' [] ms + total ''mqtt.subscriber.errors'' [] ms =
      int (length (filter (\<lambda>c. \<not> ignored c) calls))"
    by (rule both.counts_calls [OF ms]) (use one in blast)
qed

section \<open>Properties\<close>

text \<open>C3: the account of a client. Over its whole life, through any sequence of connections, losses,
  packets, failures and calls, what its subscribers have done is exactly this: each packet with
  a topic, given or by an alias of the current connection, has been handled once by each
  subscriber with a matching pattern, in the order of arrival and of registration. So the
  events on the bus are those of these calls; and where the subscribers have a meter, the
  consumed counter of a topic is the number of these calls on it that delivered, the error
  counter of a topic and a type the number that ended with such an error, none of them for a
  missing subscription, and every call is counted once unless its message is ignored.\<close>

theorem client_account:
  fixes rt :: "'c runtime" and ctx :: 'c and s :: "('c, 'm, 'e) life" and t k :: string
  defines "calls \<equiv> handlings rt (l_client s) (received (rev (l_events s)))"
    and "run \<equiv> \<lambda>(m, u :: ('c, 'm, 'e) subscriber). HandleMessage rt u ctx m"
    and "ignored \<equiv> \<lambda>(m, u :: ('c, 'm, 'e) subscriber). pub_Retain m \<and> \<not> s_handleRetained u"
    and "ms \<equiv> sub_measurements (subscriber_effects (l_effects s))"
  assumes "converts fp" and "well_built c0"
    and "(life_step rt fp ctx)\<^sup>*\<^sup>* (begin_life rt c0 ctx) s"
    and "\<forall>u \<in> set (c_subscribers c0). \<exists>name meter. s_metrics u = NewSubscriberMetrics name (Some meter)"
  shows "subscriber_effects (l_effects s) = concat (map (\<lambda>c. effects (run c)) calls)
    \<and> client_events (l_effects s) = concat (map (\<lambda>c. sub_events (effects (run c))) calls)
    \<and> total ''messaging.client.consumed.messages'' [on_topic t] ms =
        int (length (filter (\<lambda>c. pub_Topic (fst c) = t \<and> \<not> ignored c \<and> outcome (run c) = Ret None) calls))
    \<and> total ''mqtt.subscriber.errors'' [on_topic t, (''error.type'', k)] ms =
        int (length (filter (\<lambda>c. pub_Topic (fst c) = t
          \<and> (\<exists>e. outcome (run c) = Ret (Some e) \<and> error_type e = k)) calls))
    \<and> total ''mqtt.subscriber.errors'' [on_topic t, (''error.type'', ''subscription'')] ms = 0
    \<and> total ''messaging.client.consumed.messages'' [] ms + total ''mqtt.subscriber.errors'' [] ms =
        int (length (filter (\<lambda>c. \<not> ignored c) calls))"
proof -
  have inv: "accounts_inv rt fp ctx c0 s"
    using accounts.reachable_inv [OF assms(7)] assms(5,6) by blast
  then have "c_subscribers (l_client s) = c_subscribers c0"
    by (simp add: accounts_inv_def life_inv_def same_setup_def)
  then have calls: "calls = handlings rt c0 (received (rev (l_events s)))"
    by (simp add: calls_def handlings_def recipients_def)
  then have did: "subscriber_effects (l_effects s) = concat (map (\<lambda>c. effects (run c)) calls)"
    using inv by (simp add: accounts_inv_def subscribers_did_def run_def case_prod_unfold)
  have mset: "mset ms = mset (concat (map (\<lambda>c. sub_measurements (effects (run c))) calls))"
    unfolding ms_def did by (induction calls) simp_all
  have call: "wired u \<and> (\<exists>name meter. s_metrics u = NewSubscriberMetrics name (Some meter))
      \<and> outcome (HandleMessage rt u ctx m) \<noteq> Ret (Some (NoSubscriptionMatched t'))"
    if "(m, u) \<in> set calls" for m u t'
    using that handlings_mem [of m u rt c0] matched_not_rejected [of u rt m ctx t'] assms(6,8)
    by (auto simp: calls well_built_def)
  then have none: "filter (\<lambda>c. pub_Topic (fst c) = t
      \<and> (\<exists>e. outcome (run c) = Ret (Some e) \<and> error_type e = ''subscription'')) calls = []"
    by (fastforce simp: filter_empty_conv run_def elim: error_type.elims)
  have metered: "\<And>m u. (m, u) \<in> set calls \<Longrightarrow> wired u
      \<and> (\<exists>name meter. s_metrics u = NewSubscriberMetrics name (Some meter))"
    using call by blast
  note totals = calls_totals [OF metered mset [unfolded run_def], folded run_def ignored_def]
  have "client_events (l_effects s) = concat (map (\<lambda>c. sub_events (effects (run c))) calls)"
    by (simp add: client_events_def did sub_events_concat comp_def)
  with did totals none show ?thesis by simp
qed

section \<open>Witnesses\<close>

text \<open>A client whose one subscriber has a meter, and one packet.\<close>

definition metered_client :: "(string, byte, string) client" where
  "metered_client = example_client\<lparr>c_subscribers := [metered_subscriber]\<rparr>"

theorem client_account_witness:
  "\<exists>s. (life_step example_runtime example_conversion ''ctx'')\<^sup>*\<^sup>* (begin_life example_runtime metered_client ''ctx'') s
     \<and> total ''messaging.client.consumed.messages'' [] (sub_measurements (subscriber_effects (l_effects s)))
       + total ''mqtt.subscriber.errors'' [] (sub_measurements (subscriber_effects (l_effects s))) = 1"
proof -
  let ?step = "life_step example_runtime example_conversion ''ctx''"
  have built: "well_built metered_client"
    using example_client_well_built built_from_options_wired [OF metered_subscriber_built]
    by (simp add: well_built_def metered_client_def)
  obtain s where s: "?step\<^sup>*\<^sup>* (begin_life example_runtime metered_client ''ctx'') s"
    "l_events s = [PacketIn example_packet]"
    using can_happen [OF example_converts built rtranclp.rtrancl_refl, of example_runtime "''ctx''" "PacketIn example_packet"]
    by (auto simp: begin_life_def)
  have subs: "c_subscribers metered_client = [metered_subscriber]"
    by (simp add: metered_client_def)
  have "c_subscribers (l_client s) = [metered_subscriber]"
    using life_invD(1) [OF reachable_life_inv [OF example_converts built s(1)]] by (simp add: same_setup_def subs)
  moreover have "\<exists>p \<in> set (MQTTPatterns metered_subscriber). Matches example_runtime p ''dev''"
    by (simp add: MQTTPatterns_def metered_subscriber_def example_subscriber_def example_subscription_def)
  moreover have "topic_on ([] :: (string, string) event list) example_packet = ''dev''"
    by (simp add: topic_on_def alias_of_def example_packet_def)
  ultimately have "handlings example_runtime (l_client s) (received (rev (l_events s)))
      = [(message_of example_packet ''dev'', metered_subscriber)]"
    by (simp add: s(2) recipients_def message_of_def)
  moreover have meters: "\<forall>u \<in> set (c_subscribers metered_client). \<exists>name meter. s_metrics u = NewSubscriberMetrics name (Some meter)"
    by (auto simp: subs metered_subscriber_def)
  note account = client_account [OF example_converts built s(1) meters, THEN conjunct2, THEN conjunct2,
      THEN conjunct2, THEN conjunct2, THEN conjunct2]
  moreover have "\<not> pub_Retain (message_of example_packet ''dev'')"
    by (simp add: message_of_def example_packet_def)
  ultimately show ?thesis
    using s(1) by (intro exI [of _ s]) simp
qed

end
