(* ===== verification/GoSlices.thy ===== *)
theory GoSlices
  imports Prelude
begin

text \<open>
  Go's slices: a slice is a pointer to an array, a length and a capacity, over a store of arrays
  that several slices can share. The router (\<open>Slices\<close>) and the carrier (\<open>Headers\<close>) are modelled on
  them, since what either promises is about who sees a write. The lemmas say what \<open>append\<close> does
  to the slice it is given and which arrays it leaves alone.
\<close>

section \<open>Slices\<close>

record 'a store =
  cells :: "nat \<Rightarrow> 'a list"
  next_free :: nat

record slice =
  sl_array :: nat
  sl_len :: nat
  sl_cap :: nat

definition contents :: "'a store \<Rightarrow> slice \<Rightarrow> 'a list" where
  "contents st s = take (sl_len s) (cells st (sl_array s))"

text \<open>The slice refers to an allocated array and stays inside it.\<close>

definition valid :: "'a store \<Rightarrow> slice \<Rightarrow> bool" where
  "valid st s \<longleftrightarrow> sl_array s < next_free st \<and> sl_len s \<le> sl_cap s
     \<and> sl_cap s \<le> length (cells st (sl_array s))"

definition alloc :: "'a store \<Rightarrow> 'a list \<Rightarrow> 'a store" where
  "alloc st xs = st\<lparr>cells := (cells st)(next_free st := xs), next_free := Suc (next_free st)\<rparr>"

text \<open>
  \<open>append(s, x)\<close>: into the spare capacity where there is some, else into a new array. By how
  much Go over-allocates is its own affair: \<open>spare\<close>. Unused cells hold a zero value.
\<close>

definition go_append ::
  "(nat \<Rightarrow> nat) \<Rightarrow> 'a \<Rightarrow> 'a store \<Rightarrow> slice \<Rightarrow> 'a \<Rightarrow> 'a store \<times> slice" where
  "go_append spare zero st s x =
     (if sl_len s < sl_cap s
      then (st\<lparr>cells := (cells st)(sl_array s := (cells st (sl_array s))[sl_len s := x])\<rparr>,
            s\<lparr>sl_len := Suc (sl_len s)\<rparr>)
      else (alloc st (contents st s @ x # replicate (spare (sl_len s)) zero),
            \<lparr>sl_array = next_free st, sl_len = Suc (sl_len s),
             sl_cap = Suc (sl_len s + spare (sl_len s))\<rparr>))"

text \<open>A write to one cell of an array.\<close>

definition go_write :: "'a store \<Rightarrow> nat \<Rightarrow> nat \<Rightarrow> 'a \<Rightarrow> 'a store" where
  "go_write st a i x = st\<lparr>cells := (cells st)(a := (cells st a)[i := x])\<rparr>"

text \<open>\<open>s[:len(s):len(s)]\<close>: the same elements with no spare capacity.\<close>

definition frozen :: "slice \<Rightarrow> slice" where
  "frozen s = s\<lparr>sl_cap := sl_len s\<rparr>"

text \<open>\<open>make([]T, 0, n)\<close>.\<close>

definition go_make :: "'a \<Rightarrow> 'a store \<Rightarrow> nat \<Rightarrow> 'a store \<times> slice" where
  "go_make zero st n = (alloc st (replicate n zero),
     \<lparr>sl_array = next_free st, sl_len = 0, sl_cap = n\<rparr>)"

section \<open>Arrays that existed before are not written\<close>

definition untouched :: "'a store \<Rightarrow> 'a store \<Rightarrow> bool" where
  "untouched st st' \<longleftrightarrow> next_free st \<le> next_free st' \<and> (\<forall>a < next_free st. cells st' a = cells st a)"

lemma untouched_refl [simp]: "untouched st st"
  by (simp add: untouched_def)

lemma untouched_trans: "untouched st st' \<Longrightarrow> untouched st' st'' \<Longrightarrow> untouched st st''"
  by (simp add: untouched_def)

lemma untouched_contents:
  "untouched st st' \<Longrightarrow> valid st s \<Longrightarrow> valid st' s \<and> contents st' s = contents st s"
  by (auto simp: untouched_def valid_def contents_def)

lemma untouched_alloc [simp]: "untouched st (alloc st xs)"
  by (simp add: untouched_def alloc_def)

lemma length_contents: "valid st s \<Longrightarrow> length (contents st s) = sl_len s"
  by (simp add: valid_def contents_def)

lemma go_append_contents:
  assumes "valid st s" "go_append spare zero st s x = (st', s')"
  shows "valid st' s' \<and> contents st' s' = contents st s @ [x]"
  using assms
  by (auto simp: go_append_def valid_def contents_def alloc_def take_Suc_conv_app_nth min_def
      split: if_splits)

lemma go_append_frozen:
  assumes "go_append spare zero st (frozen s) x = (st', s')"
  shows "untouched st st'"
  using assms by (auto simp: go_append_def frozen_def)

text \<open>Appending into an array made during the operation leaves the older arrays alone.\<close>

lemma go_append_fresh:
  assumes "untouched old st" "next_free old \<le> sl_array s" "valid st s"
    and "go_append spare zero st s x = (st', s')"
  shows "untouched old st' \<and> next_free old \<le> sl_array s'"
  using assms by (auto simp: go_append_def untouched_def alloc_def valid_def split: if_splits)

lemma frozen_valid: "valid st s \<Longrightarrow> valid st (frozen s) \<and> contents st (frozen s) = contents st s"
  by (simp add: valid_def frozen_def contents_def)

end
