(* ===== verification/Slices.thy ===== *)
theory Slices
  imports Router GoSlices
begin

text \<open>
  The entry list of the router as the Go code has it, a slice. \<open>Route\<close> reads
  through a snapshot of the slice header with the lock released while other goroutines change
  the router, so the claim of src/client/router.go is about arrays: no operation writes into
  an array that existed before it. From it follow the refinement of the operations of
  \<open>Router\<close> and the correctness of a dispatch that interleaves with changes.
\<close>

section \<open>The operations of the router on slices\<close>

record 'f router_mem =
  mem_store :: "'f router_entry store"
  mem_entries :: slice

definition zero_entry :: "'f router_entry" where
  "zero_entry = \<lparr>patterns = [], handler = (\<lambda>_. panic NilDereference)\<rparr>"

definition AddRecipient_mem ::
  "(nat \<Rightarrow> nat) \<Rightarrow> 'f router_mem \<Rightarrow> string list \<Rightarrow> 'f message_handler \<Rightarrow> 'f router_mem" where
  "AddRecipient_mem spare m ps h =
     (let (st, s) = go_append spare zero_entry (mem_store m) (frozen (mem_entries m))
                      \<lparr>patterns = ps, handler = h\<rparr>
      in \<lparr>mem_store = st, mem_entries = s\<rparr>)"

text \<open>
  The loop of \<open>UnregisterHandler\<close>: each element is read from the store when its turn comes.
\<close>

fun keep_loop ::
  "(nat \<Rightarrow> nat) \<Rightarrow> string \<Rightarrow> slice \<Rightarrow> nat list \<Rightarrow> 'f router_entry store \<Rightarrow> slice
    \<Rightarrow> 'f router_entry store \<times> slice" where
  "keep_loop spare topic src [] st kept = (st, kept)"
| "keep_loop spare topic src (i # is) st kept =
     (let e = cells st (sl_array src) ! i
      in if length (patterns e) = 1 \<and> patterns e ! 0 = topic
         then keep_loop spare topic src is st kept
         else (let (st', kept') = go_append spare zero_entry st kept e
               in keep_loop spare topic src is st' kept'))"

definition UnregisterHandler_mem ::
  "(nat \<Rightarrow> nat) \<Rightarrow> 'f router_mem \<Rightarrow> string \<Rightarrow> 'f router_mem" where
  "UnregisterHandler_mem spare m topic =
     (let (st, kept) = go_make zero_entry (mem_store m) (sl_len (mem_entries m));
          (st', kept') = keep_loop spare topic (mem_entries m) [0..<sl_len (mem_entries m)] st kept
      in \<lparr>mem_store = st', mem_entries = kept'\<rparr>)"

definition mem_list :: "'f router_mem \<Rightarrow> 'f router_entry list" where
  "mem_list m = contents (mem_store m) (mem_entries m)"

definition mem_ok :: "'f router_mem \<Rightarrow> bool" where
  "mem_ok m \<longleftrightarrow> valid (mem_store m) (mem_entries m)"

text \<open>A router has no entries at first: the nil slice, of length and capacity zero.\<close>

definition empty_mem :: "'f router_mem" where
  "empty_mem = \<lparr>mem_store = \<lparr>cells = (\<lambda>_. []), next_free = 1\<rparr>,
     mem_entries = \<lparr>sl_array = 0, sl_len = 0, sl_cap = 0\<rparr>\<rparr>"

section \<open>The operations on lists and on slices agree\<close>

lemma AddRecipient_mem:
  assumes "mem_ok m"
  shows "mem_ok (AddRecipient_mem spare m ps h)
    \<and> mem_list (AddRecipient_mem spare m ps h) = mem_list m @ [\<lparr>patterns = ps, handler = h\<rparr>]
    \<and> untouched (mem_store m) (mem_store (AddRecipient_mem spare m ps h))"
proof -
  obtain st s where ap: "go_append spare zero_entry (mem_store m) (frozen (mem_entries m))
      \<lparr>patterns = ps, handler = h\<rparr> = (st, s)"
    by (rule prod.exhaust)
  have "valid (mem_store m) (frozen (mem_entries m))"
    "contents (mem_store m) (frozen (mem_entries m)) = mem_list m"
    using assms frozen_valid by (auto simp: mem_ok_def mem_list_def)
  then show ?thesis
    using go_append_contents [OF _ ap] go_append_frozen [OF ap]
    by (simp add: AddRecipient_mem_def ap mem_ok_def mem_list_def [of "router_mem.make _ _"]
        mem_list_def [of "\<lparr>mem_store = _, mem_entries = _\<rparr>"])
qed

lemma keep_loop_inv:
  assumes "untouched old st" "valid old src" "next_free old \<le> sl_array kept" "valid st kept"
    and "set is \<subseteq> {..<sl_len src}"
    and "keep_loop spare topic src is st kept = (st', kept')"
  shows "untouched old st' \<and> valid st' kept'
    \<and> contents st' kept' = contents st kept
        @ filter (\<lambda>e. patterns e \<noteq> [topic]) (map (\<lambda>i. contents old src ! i) is)"
  using assms
proof (induction "is" arbitrary: st kept)
  case Nil
  then show ?case by simp
next
  case (Cons i "is")
  let ?e = "cells st (sl_array src) ! i"
  have e: "?e = contents old src ! i"
    using Cons.prems(1,2,5) by (simp add: untouched_def valid_def contents_def)
  have single: "length ps = Suc 0 \<and> ps ! 0 = topic \<longleftrightarrow> ps = [topic]" for ps
    by (cases ps) auto
  show ?case
  proof (cases "patterns ?e = [topic]")
    case True
    then have "keep_loop spare topic src is st kept = (st', kept')"
      using Cons.prems(6) by (simp add: single)
    with True show ?thesis
      using Cons.IH [OF Cons.prems(1-4)] Cons.prems(5) e by simp
  next
    case False
    obtain st1 k1 where ap: "go_append spare zero_entry st kept ?e = (st1, k1)"
      by (rule prod.exhaust)
    with False have rest: "keep_loop spare topic src is st1 k1 = (st', kept')"
      using Cons.prems(6) by (simp add: single)
    have f: "untouched old st1" "next_free old \<le> sl_array k1"
      using go_append_fresh [OF Cons.prems(1,3,4) ap] by auto
    have c: "valid st1 k1" "contents st1 k1 = contents st kept @ [?e]"
      using go_append_contents [OF Cons.prems(4) ap] by auto
    show ?thesis
      using Cons.IH [OF f(1) Cons.prems(2) f(2) c(1) _ rest] Cons.prems(5) c(2) e False by simp
  qed
qed

lemma UnregisterHandler_mem:
  assumes "mem_ok m"
  shows "mem_ok (UnregisterHandler_mem spare m t)
    \<and> mem_list (UnregisterHandler_mem spare m t) = kept_entries t (mem_list m)
    \<and> untouched (mem_store m) (mem_store (UnregisterHandler_mem spare m t))"
proof -
  let ?n = "sl_len (mem_entries m)"
  let ?st = "alloc (mem_store m) (replicate ?n zero_entry)"
  let ?k = "\<lparr>sl_array = next_free (mem_store m), sl_len = 0, sl_cap = ?n\<rparr>"
  obtain st' k' where loop: "keep_loop spare t (mem_entries m) [0..<?n] ?st ?k = (st', k')"
    by (rule prod.exhaust)
  have v: "valid (mem_store m) (mem_entries m)"
    using assms by (simp add: mem_ok_def)
  have k: "valid ?st ?k" "contents ?st ?k = []"
    by (simp_all add: valid_def contents_def alloc_def)
  have "untouched (mem_store m) st' \<and> valid st' k' \<and> contents st' k' = contents ?st ?k
      @ filter (\<lambda>e. patterns e \<noteq> [t]) (map (\<lambda>i. mem_list m ! i) [0..<?n])"
    unfolding mem_list_def by (rule keep_loop_inv [OF untouched_alloc v _ k(1) _ loop]) auto
  moreover have "map (\<lambda>i. mem_list m ! i) [0..<?n] = mem_list m"
    using length_contents [OF v] map_nth [of "mem_list m"] by (simp add: mem_list_def)
  ultimately show ?thesis
    using k(2) loop
    by (simp add: UnregisterHandler_mem_def go_make_def mem_ok_def kept_entries_filter
        mem_list_def [of "\<lparr>mem_store = _, mem_entries = _\<rparr>"])
qed

interpretation slices: recipient_registry
  "\<lambda>m. map entry_pair (mem_list m)" "AddRecipient_mem spare" "UnregisterHandler_mem spare" mem_ok
  for spare
  by unfold_locales
     (simp_all add: AddRecipient_mem UnregisterHandler_mem kept_entries_filter entry_pair_def
       filter_map comp_def)

end
