(* ===== verification/Dispatch.thy ===== *)
theory Dispatch
  imports Slices
begin

text \<open>
  A dispatch among concurrent changes. \<open>Route\<close> takes the header of the entry slice under the
  lock and walks it with the lock released, while other goroutines may add and remove
  recipients; the step relation \<open>dispatch_step\<close> interleaves the two in every order. The whole of
  \<open>Route\<close>, and many calls of it, are the subject of \<open>Traffic\<close>.
\<close>

section \<open>Steps\<close>

record 'f dispatch =
  d_mem :: "'f router_mem"
  d_snap :: slice
  d_next :: nat
  d_called :: "'f router_entry list"

definition begin_dispatch :: "'f router_mem \<Rightarrow> 'f dispatch" where
  "begin_dispatch m = \<lparr>d_mem = m, d_snap = mem_entries m, d_next = 0, d_called = []\<rparr>"

definition finished :: "'f dispatch \<Rightarrow> bool" where
  "finished d \<longleftrightarrow> d_next d = sl_len (d_snap d)"

text \<open>The next element is read from the store as it is at that moment.\<close>

definition visit :: "'c runtime \<Rightarrow> string \<Rightarrow> 'f dispatch \<Rightarrow> 'f dispatch" where
  "visit rt topic d =
     (let e = cells (mem_store (d_mem d)) (sl_array (d_snap d)) ! d_next d
      in d\<lparr>d_next := Suc (d_next d),
           d_called := (if entry_matches rt e topic then d_called d @ [e] else d_called d)\<rparr>)"

inductive dispatch_step ::
  "'c runtime \<Rightarrow> (nat \<Rightarrow> nat) \<Rightarrow> string \<Rightarrow> 'f dispatch \<Rightarrow> 'f dispatch \<Rightarrow> bool"
  for rt :: "'c runtime" and spare :: "nat \<Rightarrow> nat" and topic :: string where
  Visit: "d_next d < sl_len (d_snap d) \<Longrightarrow> dispatch_step rt spare topic d (visit rt topic d)"
| Add: "dispatch_step rt spare topic d (d\<lparr>d_mem := AddRecipient_mem spare (d_mem d) ps h\<rparr>)"
| Remove: "dispatch_step rt spare topic d (d\<lparr>d_mem := UnregisterHandler_mem spare (d_mem d) t\<rparr>)"

inductive_cases dispatch_stepE: "dispatch_step rt spare topic d d'"

section \<open>The invariant\<close>

text \<open>
  The store only grows around the snapshot, so what was listed when the dispatch began is
  what it reads; it has called the matching ones among those it has passed.
\<close>

definition dispatch_inv :: "'c runtime \<Rightarrow> string \<Rightarrow> 'f router_mem \<Rightarrow> 'f dispatch \<Rightarrow> bool" where
  "dispatch_inv rt topic m d \<longleftrightarrow>
     mem_ok (d_mem d) \<and> d_snap d = mem_entries m
     \<and> untouched (mem_store m) (mem_store (d_mem d))
     \<and> d_next d \<le> sl_len (d_snap d)
     \<and> d_called d = filter (\<lambda>e. entry_matches rt e topic) (take (d_next d) (mem_list m))"

lemma dispatch_inv_begin: "mem_ok m \<Longrightarrow> dispatch_inv rt topic m (begin_dispatch m)"
  by (simp add: dispatch_inv_def begin_dispatch_def)

lemma dispatch_inv_change:
  assumes "dispatch_inv rt topic m d" "mem_ok m'" "untouched (mem_store (d_mem d)) (mem_store m')"
  shows "dispatch_inv rt topic m (d\<lparr>d_mem := m'\<rparr>)"
  using assms untouched_trans by (auto simp: dispatch_inv_def)

lemma dispatch_inv_visit:
  assumes "mem_ok m" "dispatch_inv rt topic m d" "d_next d < sl_len (d_snap d)"
  shows "dispatch_inv rt topic m (visit rt topic d)"
proof -
  let ?e = "cells (mem_store (d_mem d)) (sl_array (d_snap d)) ! d_next d"
  have snap: "d_snap d = mem_entries m"
    and un: "untouched (mem_store m) (mem_store (d_mem d))"
    using assms(2) by (simp_all add: dispatch_inv_def)
  have same: "contents (mem_store (d_mem d)) (d_snap d) = mem_list m"
    using untouched_contents [OF un] assms(1) by (simp add: snap mem_ok_def mem_list_def)
  have "d_next d < length (mem_list m)"
    using assms(1,3) length_contents [of "mem_store m" "mem_entries m"]
    by (simp add: snap mem_ok_def mem_list_def)
  moreover have "?e = mem_list m ! d_next d"
    using assms(3) by (simp add: same [symmetric] contents_def)
  ultimately show ?thesis
    using assms(2,3)
    by (simp add: dispatch_inv_def visit_def Let_def take_Suc_conv_app_nth)
qed

interpretation dispatching: stepped_invariant
  "begin_dispatch m" "dispatch_step rt spare topic" "\<lambda>d. mem_ok m \<longrightarrow> dispatch_inv rt topic m d"
  for m rt spare topic
proof unfold_locales
  show "mem_ok m \<longrightarrow> dispatch_inv rt topic m (begin_dispatch m)"
    by (simp add: dispatch_inv_begin)
next
  fix d d'
  assume inv: "mem_ok m \<longrightarrow> dispatch_inv rt topic m d" and step: "dispatch_step rt spare topic d d'"
  show "mem_ok m \<longrightarrow> dispatch_inv rt topic m d'"
  proof
    assume ok: "mem_ok m"
    with inv have d: "dispatch_inv rt topic m d" by blast
    then have ok': "mem_ok (d_mem d)" by (simp add: dispatch_inv_def)
    from step show "dispatch_inv rt topic m d'"
    proof cases
      case Visit
      then show ?thesis using dispatch_inv_visit [OF ok d] by simp
    next
      case (Add ps h)
      then show ?thesis using dispatch_inv_change [OF d] AddRecipient_mem [OF ok'] by blast
    next
      case (Remove t)
      then show ?thesis using dispatch_inv_change [OF d] UnregisterHandler_mem [OF ok'] by blast
    qed
  qed
qed

text \<open>An unfinished dispatch can always go on: no change can block or finish it.\<close>

lemma dispatch_can_finish:
  "d_next d \<le> sl_len (d_snap d) \<Longrightarrow>
     \<exists>d'. (dispatch_step rt spare topic)\<^sup>*\<^sup>* d d' \<and> finished d' \<and> d_mem d' = d_mem d"
proof (induction "sl_len (d_snap d) - d_next d" arbitrary: d)
  case 0
  then show ?case by (auto simp: finished_def)
next
  case (Suc n)
  then have "d_next d < sl_len (d_snap d)" by simp
  then have step: "dispatch_step rt spare topic d (visit rt topic d)"
    by (rule dispatch_step.Visit)
  have "n = sl_len (d_snap (visit rt topic d)) - d_next (visit rt topic d)"
    "d_next (visit rt topic d) \<le> sl_len (d_snap (visit rt topic d))"
    "d_mem (visit rt topic d) = d_mem d"
    using Suc.hyps(2) Suc.prems by (simp_all add: visit_def Let_def)
  then show ?case
    using Suc.hyps(1) [of "visit rt topic d"] step by (metis converse_rtranclp_into_rtranclp)
qed

section \<open>Properties\<close>

text \<open>C30: the operations on slices implement those on lists, and no operation writes into an
  array that existed before it: the recipients after an addition or a removal are the
  expected list, and every older array, hence every snapshot a dispatch may still be reading,
  is as it was. However much Go over-allocates makes no difference.\<close>

theorem mutators_preserve_snapshots:
  assumes "mem_ok m"
  shows "mem_list (AddRecipient_mem spare m ps h) = mem_list m @ [\<lparr>patterns = ps, handler = h\<rparr>]
    \<and> mem_list (UnregisterHandler_mem spare m t) = filter (\<lambda>e. patterns e \<noteq> [t]) (mem_list m)
    \<and> mem_ok (AddRecipient_mem spare m ps h) \<and> mem_ok (UnregisterHandler_mem spare m t)
    \<and> (\<forall>a < next_free (mem_store m).
         cells (mem_store (AddRecipient_mem spare m ps h)) a = cells (mem_store m) a
         \<and> cells (mem_store (UnregisterHandler_mem spare m t)) a = cells (mem_store m) a)"
  using AddRecipient_mem [OF assms, of spare ps h] UnregisterHandler_mem [OF assms, of spare t]
  by (simp add: untouched_def kept_entries_filter)

text \<open>A dispatch is atomic in effect. Whatever additions and removals interleave with it, when
  it has finished it has called every recipient that was registered and matching when it
  began, exactly once and in order, and nobody else; and it can always finish.\<close>

theorem dispatch_sees_snapshot:
  assumes "mem_ok m" and "(dispatch_step rt spare topic)\<^sup>*\<^sup>* (begin_dispatch m) d"
  shows "(finished d \<longrightarrow> d_called d = filter (\<lambda>e. entry_matches rt e topic) (mem_list m))
    \<and> (\<exists>d'. (dispatch_step rt spare topic)\<^sup>*\<^sup>* d d' \<and> finished d')"
proof -
  have inv: "dispatch_inv rt topic m d"
    using dispatching.reachable_inv [OF assms(2)] assms(1) by blast
  then have "length (mem_list m) = sl_len (d_snap d)"
    using assms(1) length_contents [of "mem_store m" "mem_entries m"]
    by (simp add: dispatch_inv_def mem_ok_def mem_list_def)
  with inv show ?thesis
    using dispatch_can_finish [of d rt spare topic] by (auto simp: dispatch_inv_def finished_def)
qed

section \<open>Concrete inputs\<close>

text \<open>One recipient for \<open>a\<close>, in an array with room to spare.\<close>

definition example_mem :: "unit router_mem" where
  "example_mem = AddRecipient_mem (\<lambda>_. 3) empty_mem [''a''] (\<lambda>_. ret ())"

lemma example_mem_ok: "mem_ok example_mem"
  and example_mem_list: "mem_list example_mem = [\<lparr>patterns = [''a''], handler = (\<lambda>_. ret ())\<rparr>]"
proof -
  have "mem_ok (empty_mem :: unit router_mem)" "mem_list (empty_mem :: unit router_mem) = []"
    by (simp_all add: mem_ok_def valid_def empty_mem_def mem_list_def contents_def)
  then show "mem_ok example_mem"
    and "mem_list example_mem = [\<lparr>patterns = [''a''], handler = (\<lambda>_. ret ())\<rparr>]"
    by (simp_all add: example_mem_def AddRecipient_mem)
qed

theorem mutators_preserve_snapshots_witness:
  "mem_list (UnregisterHandler_mem (\<lambda>_. 0) example_mem ''a'') = ([] :: unit router_entry list)"
  using mutators_preserve_snapshots [OF example_mem_ok, of "\<lambda>_. 0" _ _ "''a''"]
  by (simp add: example_mem_list)

text \<open>The recipient is removed before the dispatch reaches it, and is still called.\<close>

theorem dispatch_sees_snapshot_witness:
  "\<exists>d. (dispatch_step example_runtime (\<lambda>_. 0) ''a'')\<^sup>*\<^sup>* (begin_dispatch example_mem) d
     \<and> mem_list (d_mem d) = [] \<and> d_called d = mem_list example_mem"
proof -
  let ?step = "dispatch_step example_runtime (\<lambda>_. 0) ''a''"
  let ?m = "UnregisterHandler_mem (\<lambda>_. 0) example_mem ''a''"
  let ?d1 = "(begin_dispatch example_mem)\<lparr>d_mem := ?m\<rparr>"
  let ?d2 = "visit example_runtime ''a'' ?d1"
  have len: "sl_len (mem_entries example_mem) = 1"
    using length_contents [of "mem_store example_mem" "mem_entries example_mem"]
      example_mem_ok example_mem_list by (simp add: mem_ok_def mem_list_def)
  have "?step (begin_dispatch example_mem) ?d1"
    using dispatch_step.Remove [of example_runtime "\<lambda>_. 0" "''a''" "begin_dispatch example_mem" "''a''"]
    by (simp add: begin_dispatch_def)
  moreover have "?step ?d1 ?d2"
    by (rule dispatch_step.Visit) (simp add: begin_dispatch_def len)
  ultimately have reach: "?step\<^sup>*\<^sup>* (begin_dispatch example_mem) ?d2" by simp
  have "finished ?d2" "mem_list (d_mem ?d2) = []"
    using UnregisterHandler_mem [OF example_mem_ok, of "\<lambda>_. 0" "''a''"]
    by (simp_all add: finished_def visit_def Let_def begin_dispatch_def len example_mem_list
        kept_entries_filter)
  then show ?thesis
    using dispatch_sees_snapshot [OF example_mem_ok reach] reach
    by (intro exI [of _ ?d2]) (simp add: example_mem_list entry_matches_def example_runtime_def)
qed

end
