(* ===== verification/Traffic.thy ===== *)
theory Traffic
  imports Dispatch
begin

text \<open>
  Any number of calls of \<open>Route\<close> at once, among changes of the router (src/client/router.go).
  A call takes the entries and the logger under one lock, resolves the topic under another, and
  runs its handlers under none, so that recipients, aliases and logger may all change in
  between; handlers may themselves change the router. The theorem is that a call still does
  what \<open>Route\<close> of \<open>Router\<close> does in one step.
\<close>

section \<open>Threads\<close>

text \<open>
  Where a call of \<open>Route\<close> is: it has taken its snapshot, it is running the handlers of a
  message, or it has returned. \<open>ro_run\<close> is what it has done so far.
\<close>

datatype route_pc = Snapshotted | Handling publish | Routed

record 'f routing =
  ro_packet :: packet
  ro_snap :: slice
  ro_debug :: "'f debug_logger"
  ro_pc :: route_pc
  ro_next :: nat
  ro_run :: "('f, unit) comp"

record 'f traffic =
  t_mem :: "'f router_mem"
  t_aliases :: "(uint16, string) gomap"
  t_debug :: "'f debug_logger"
  t_routes :: "'f routing list"

text \<open>The router as a value, as the operations of \<open>Router\<close> have it.\<close>

definition router_of :: "'f traffic \<Rightarrow> 'f router" where
  "router_of t = \<lparr>entries = mem_list (t_mem t), aliases = t_aliases t, debug = t_debug t\<rparr>"

text \<open>A packet arrives: up to the end of the first critical section of \<open>Route\<close>.\<close>

definition enter :: "packet \<Rightarrow> 'f traffic \<Rightarrow> 'f traffic" where
  "enter pb t = t\<lparr>t_routes := t_routes t @
     [\<lparr>ro_packet = normalized pb, ro_snap = mem_entries (t_mem t), ro_debug = t_debug t,
       ro_pc = Snapshotted, ro_next = 0, ro_run = ret ()\<rparr>]\<rparr>"

text \<open>From there to the dispatch loop: the conversion, the second critical section, the line.\<close>

definition resolve_turn ::
  "(packet \<Rightarrow> publish outcome) \<Rightarrow> 'f traffic \<Rightarrow> 'f routing \<Rightarrow> 'f traffic \<times> 'f routing" where
  "resolve_turn fromPacket t ro =
     (case fromPacket (ro_packet ro) of
        Panic q \<Rightarrow> (t, ro\<lparr>ro_pc := Routed, ro_run := panic q\<rparr>)
      | Ret m \<Rightarrow>
          (case resolveTopic (router_of t) (ro_packet ro) (ro_debug ro) of
             (fs, Panic q) \<Rightarrow> (t, ro\<lparr>ro_pc := Routed, ro_run := (fs, Panic q)\<rparr>)
           | (fs, Ret (r, topic)) \<Rightarrow>
               (t\<lparr>t_aliases := aliases r\<rparr>,
                if topic = ''''
                then ro\<lparr>ro_pc := Routed,
                        ro_run := seq (emit fs) (\<lambda>_. println (ro_debug ro) DroppingPublish)\<rparr>
                else ro\<lparr>ro_pc := Handling (m\<lparr>pub_Topic := topic\<rparr>),
                        ro_run := seq (emit fs)
                          (\<lambda>_. println (ro_debug ro) (RoutingMessage topic))\<rparr>)))"

text \<open>
  One turn of the dispatch loop. The entry is read from the store as it is at that moment; a
  call that has panicked does nothing more.
\<close>

definition handle_turn ::
  "'c runtime \<Rightarrow> 'f traffic \<Rightarrow> 'f routing \<Rightarrow> publish \<Rightarrow> 'f routing" where
  "handle_turn rt t ro m =
     (let e = cells (mem_store (t_mem t)) (sl_array (ro_snap ro)) ! ro_next ro
      in ro\<lparr>ro_next := Suc (ro_next ro),
            ro_run := seq (ro_run ro) (\<lambda>_.
              if entry_matches rt e (pub_Topic m) then handler e m else ret ())\<rparr>)"

definition routed :: "'f routing \<Rightarrow> bool" where
  "routed ro \<longleftrightarrow>
     (case ro_pc ro of Snapshotted \<Rightarrow> False | Handling m \<Rightarrow> ro_next ro = sl_len (ro_snap ro) | Routed \<Rightarrow> True)"

inductive traffic_step ::
  "'c runtime \<Rightarrow> (packet \<Rightarrow> publish outcome) \<Rightarrow> (nat \<Rightarrow> nat) \<Rightarrow> 'f traffic \<Rightarrow> 'f traffic \<Rightarrow> bool"
  for rt :: "'c runtime" and fromPacket :: "packet \<Rightarrow> publish outcome" and spare :: "nat \<Rightarrow> nat" where
  Enter: "traffic_step rt fromPacket spare t (enter pb t)"
| Resolve: "j < length (t_routes t) \<Longrightarrow> ro_pc (t_routes t ! j) = Snapshotted \<Longrightarrow>
    resolve_turn fromPacket t (t_routes t ! j) = (t', ro) \<Longrightarrow>
    traffic_step rt fromPacket spare t (t'\<lparr>t_routes := (t_routes t)[j := ro]\<rparr>)"
| Handle: "j < length (t_routes t) \<Longrightarrow> ro_pc (t_routes t ! j) = Handling m \<Longrightarrow>
    ro_next (t_routes t ! j) < sl_len (ro_snap (t_routes t ! j)) \<Longrightarrow>
    traffic_step rt fromPacket spare t
      (t\<lparr>t_routes := (t_routes t)[j := handle_turn rt t (t_routes t ! j) m]\<rparr>)"
| Add: "traffic_step rt fromPacket spare t (t\<lparr>t_mem := AddRecipient_mem spare (t_mem t) ps h\<rparr>)"
| Remove: "traffic_step rt fromPacket spare t
    (t\<lparr>t_mem := UnregisterHandler_mem spare (t_mem t) topic\<rparr>)"
| ResetAll: "traffic_step rt fromPacket spare t
    (t\<lparr>t_aliases := aliases (resetAliases (router_of t))\<rparr>)"
| SetLogger: "traffic_step rt fromPacket spare t
    (t\<lparr>t_debug := debug (SetDebugLogger (router_of t) l)\<rparr>)"

inductive_cases traffic_stepE: "traffic_step rt fromPacket spare t t'"

section \<open>What one step does to one call\<close>

lemma resolve_turn_frame [simp]:
  "t_mem (fst (resolve_turn fromPacket t ro)) = t_mem t"
  "ro_snap (snd (resolve_turn fromPacket t ro)) = ro_snap ro"
  "ro_next (snd (resolve_turn fromPacket t ro)) = ro_next ro"
  "ro_pc (snd (resolve_turn fromPacket t ro)) \<noteq> Snapshotted"
  by (auto simp: resolve_turn_def split: outcome.split prod.split)

lemma handle_turn_frame [simp]:
  "ro_snap (handle_turn rt t ro m) = ro_snap ro" "ro_pc (handle_turn rt t ro m) = ro_pc ro"
  "ro_next (handle_turn rt t ro m) = Suc (ro_next ro)"
  by (simp_all add: handle_turn_def Let_def)

text \<open>
  A step leaves a given call alone, resolves it, or runs one turn of its loop; and it writes
  to no array that existed.
\<close>

lemma step_of_call:
  assumes "traffic_step rt fromPacket spare t t'" "mem_ok (t_mem t)" "i < length (t_routes t)"
  shows "mem_ok (t_mem t') \<and> untouched (mem_store (t_mem t)) (mem_store (t_mem t'))
    \<and> i < length (t_routes t')
    \<and> (t_routes t' ! i = t_routes t ! i
       \<or> ro_pc (t_routes t ! i) = Snapshotted
         \<and> t_routes t' ! i = snd (resolve_turn fromPacket t (t_routes t ! i))
       \<or> (\<exists>m. ro_pc (t_routes t ! i) = Handling m
         \<and> ro_next (t_routes t ! i) < sl_len (ro_snap (t_routes t ! i))
         \<and> t_routes t' ! i = handle_turn rt t (t_routes t ! i) m))"
  using assms(1)
proof cases
  case (Enter pb)
  then show ?thesis using assms(2,3) by (simp add: enter_def nth_append)
next
  case (Resolve j t1 ro)
  have "t1 = fst (resolve_turn fromPacket t (t_routes t ! j))"
    "ro = snd (resolve_turn fromPacket t (t_routes t ! j))"
    by (simp_all add: Resolve(4))
  with Resolve(1-3) show ?thesis using assms(2,3) by (cases "i = j") simp_all
next
  case (Handle j m)
  then show ?thesis using assms(2,3) by (cases "i = j") auto
next
  case (Add ps h)
  then show ?thesis using assms(3) AddRecipient_mem [OF assms(2)] by simp
next
  case (Remove topic)
  then show ?thesis using assms(3) UnregisterHandler_mem [OF assms(2)] by simp
next
  case ResetAll
  then show ?thesis using assms(2,3) by simp
next
  case (SetLogger l)
  then show ?thesis using assms(2,3) by simp
qed

text \<open>The entries of a snapshot are still there.\<close>

definition reads :: "'f traffic \<Rightarrow> nat \<Rightarrow> 'f router_entry list \<Rightarrow> bool" where
  "reads t i es \<longleftrightarrow> mem_ok (t_mem t) \<and> i < length (t_routes t)
     \<and> valid (mem_store (t_mem t)) (ro_snap (t_routes t ! i))
     \<and> contents (mem_store (t_mem t)) (ro_snap (t_routes t ! i)) = es"

lemma reads_step:
  assumes "traffic_step rt fromPacket spare t t'" "reads t i es"
  shows "reads t' i es"
proof -
  have "ro_snap (t_routes t' ! i) = ro_snap (t_routes t ! i)"
    using step_of_call [OF assms(1), of i] assms(2) by (auto simp: reads_def)
  with step_of_call [OF assms(1), of i] assms(2) show ?thesis
    using untouched_contents by (fastforce simp: reads_def)
qed

section \<open>Before and after the topic is resolved\<close>

definition waiting ::
  "packet \<Rightarrow> 'f debug_logger \<Rightarrow> nat \<Rightarrow> 'f router_entry list \<Rightarrow> 'f traffic \<Rightarrow> bool" where
  "waiting pb d i es t \<longleftrightarrow> reads t i es
     \<and> (ro_pc (t_routes t ! i) = Snapshotted \<longrightarrow>
          ro_packet (t_routes t ! i) = normalized pb \<and> ro_debug (t_routes t ! i) = d
          \<and> ro_next (t_routes t ! i) = 0 \<and> ro_run (t_routes t ! i) = ret ())"

lemma waiting_enter:
  "mem_ok (t_mem t) \<Longrightarrow> waiting pb (t_debug t) (length (t_routes t)) (mem_list (t_mem t)) (enter pb t)"
  by (simp add: waiting_def reads_def enter_def nth_append mem_ok_def mem_list_def)

lemma waiting_step:
  assumes "waiting pb d i es t" "traffic_step rt fromPacket spare t t'"
  shows "waiting pb d i es t'"
  using step_of_call [OF assms(2), of i] reads_step [OF assms(2), of i es] assms(1)
  by (auto simp: waiting_def reads_def)

text \<open>What a call that is through with its second lock has done after some turns.\<close>

definition so_far ::
  "'c runtime \<Rightarrow> 'f routing \<Rightarrow> 'f router_entry list \<Rightarrow> ('f, unit) comp" where
  "so_far rt ro es =
     (case ro_pc ro of Handling m \<Rightarrow> seq (ro_run ro) (\<lambda>_. dispatch_loop rt m es) | _ \<Rightarrow> ro_run ro)"

definition serving ::
  "'c runtime \<Rightarrow> 'f routing \<Rightarrow> nat \<Rightarrow> 'f router_entry list \<Rightarrow> 'f traffic \<Rightarrow> bool" where
  "serving rt ro i es t \<longleftrightarrow> reads t i es \<and> ro_pc ro \<noteq> Snapshotted
     \<and> ro_pc (t_routes t ! i) = ro_pc ro \<and> ro_next (t_routes t ! i) \<le> length es
     \<and> ro_run (t_routes t ! i) = so_far rt ro (take (ro_next (t_routes t ! i)) es)"

lemma dispatch_loop_snoc:
  "dispatch_loop rt m (es @ [e]) = seq (dispatch_loop rt m es)
     (\<lambda>_. if entry_matches rt e (pub_Topic m) then handler e m else ret ())"
  by (simp add: dispatch_loop_run run_all_append)

lemma reads_turn:
  assumes "reads t i es" "ro_next (t_routes t ! i) < sl_len (ro_snap (t_routes t ! i))"
  shows "ro_next (t_routes t ! i) < length es
    \<and> cells (mem_store (t_mem t)) (sl_array (ro_snap (t_routes t ! i))) ! ro_next (t_routes t ! i)
       = es ! ro_next (t_routes t ! i)"
proof -
  have "length es = sl_len (ro_snap (t_routes t ! i))"
    using assms(1) length_contents by (fastforce simp: reads_def)
  with assms show ?thesis by (auto simp: reads_def contents_def)
qed

lemma serving_step:
  assumes "serving rt ro i es t" "traffic_step rt fromPacket spare t t'"
  shows "serving rt ro i es t'"
proof -
  have reads: "reads t i es" "reads t' i es"
    using assms(1) reads_step [OF assms(2)] by (simp_all add: serving_def)
  consider "t_routes t' ! i = t_routes t ! i"
    | m where "ro_pc ro = Handling m" "ro_next (t_routes t ! i) < sl_len (ro_snap (t_routes t ! i))"
        "t_routes t' ! i = handle_turn rt t (t_routes t ! i) m"
    using step_of_call [OF assms(2), of i] assms(1) by (auto simp: serving_def reads_def)
  then show ?thesis
  proof cases
    case 1
    then show ?thesis using assms(1) reads by (simp add: serving_def)
  next
    case (2 m)
    with reads_turn [OF reads(1)] assms(1) reads show ?thesis
      by (simp add: serving_def so_far_def take_Suc_conv_app_nth dispatch_loop_snoc seq_assoc
          handle_turn_def Let_def)
  qed
qed

interpretation serving: stepped_invariant t "traffic_step rt fromPacket spare"
  "\<lambda>s. serving rt ro i es t \<longrightarrow> serving rt ro i es s"
  for t rt fromPacket spare ro i es
  by unfold_locales (auto intro: serving_step)

lemma serving_resolved:
  assumes "waiting pb d i es t" "ro_pc (t_routes t ! i) = Snapshotted"
    and "resolve_turn fromPacket t (t_routes t ! i) = (t', ro)"
  shows "serving rt ro i es (t'\<lparr>t_routes := (t_routes t)[i := ro]\<rparr>)"
proof -
  have "t' = fst (resolve_turn fromPacket t (t_routes t ! i))"
    "ro = snd (resolve_turn fromPacket t (t_routes t ! i))"
    by (simp_all add: assms(3))
  with assms(1,2) show ?thesis
    by (auto simp: serving_def waiting_def reads_def so_far_def split: route_pc.split)
qed

lemma serving_length: "serving rt ro i es t \<Longrightarrow> sl_len (ro_snap (t_routes t ! i)) = length es"
  using length_contents by (fastforce simp: serving_def reads_def)

interpretation waiting: stepped_invariant "enter pb t" "traffic_step rt fromPacket spare"
  "\<lambda>s. mem_ok (t_mem t) \<longrightarrow> waiting pb (t_debug t) (length (t_routes t)) (mem_list (t_mem t)) s"
  for pb t rt fromPacket spare
  by unfold_locales (auto intro: waiting_enter waiting_step)

section \<open>The two halves of Route\<close>

lemma seq_prefixed [simp]: "seq (fs @ fst m, snd m) k = (fs @ fst (seq m k), snd (seq m k))"
  by (cases m) (auto simp: seq_def split: outcome.splits prod.splits)

lemma resolveTopic_aliases:
  "resolveTopic (r\<lparr>entries := es, debug := d\<rparr>) pb l =
     seq (resolveTopic r pb l) (\<lambda>(r', topic). ret (r'\<lparr>entries := es, debug := d\<rparr>, topic))"
  by (cases r) (auto simp: resolveTopic_def seq_assoc split: option.split outcome.split)

lemma resolve_turn_Route:
  assumes "ro_packet ro = normalized pb" "ro_debug ro = d" "ro_run ro = ret ()"
    and "resolve_turn fromPacket t ro = (t', ro')"
    and "R = (router_of t)\<lparr>entries := es, debug := d\<rparr>"
  shows "so_far rt ro' es = seq (Route rt fromPacket R pb) (\<lambda>_. ret ())
    \<and> (\<forall>r. outcome (Route rt fromPacket R pb) = Ret r \<longrightarrow> t_aliases t' = aliases r)"
proof (cases "fromPacket (normalized pb)")
  case (Panic q)
  then show ?thesis
    using assms(1-4) by (auto simp: resolve_turn_def so_far_def Route_def Let_def)
next
  case (Ret m)
  obtain fs out where res: "resolveTopic (router_of t) (normalized pb) d = (fs, out)"
    by (rule prod.exhaust)
  show ?thesis
  proof (cases out)
    case (Panic q)
    with Ret res show ?thesis
      using assms(1-4) by (auto simp: resolve_turn_def so_far_def Route_def Let_def assms(5) resolveTopic_aliases)
  next
    case (Ret rt')
    with \<open>fromPacket (normalized pb) = Ret m\<close> res show ?thesis
      using assms(1-4)
      by (cases rt') (auto simp: resolve_turn_def so_far_def Route_def Let_def assms(5)
          resolveTopic_aliases seq_assoc dest!: seq_returned)
  qed
qed

section \<open>Progress\<close>

text \<open>Nothing that the others do can block a call: its own next step is always there.\<close>

lemma turns_finish:
  assumes "i < length (t_routes t)" "ro_next (t_routes t ! i) \<le> sl_len (ro_snap (t_routes t ! i))"
    and "ro_pc (t_routes t ! i) \<noteq> Snapshotted"
  shows "\<exists>t'. (traffic_step rt fromPacket spare)\<^sup>*\<^sup>* t t' \<and> routed (t_routes t' ! i)"
  using assms
proof (induction "sl_len (ro_snap (t_routes t ! i)) - ro_next (t_routes t ! i)" arbitrary: t)
  case 0
  then have "routed (t_routes t ! i)"
    by (simp add: routed_def split: route_pc.split)
  then show ?case by blast
next
  case (Suc n)
  show ?case
  proof (cases "ro_pc (t_routes t ! i)")
    case (Handling m)
    let ?t = "t\<lparr>t_routes := (t_routes t)[i := handle_turn rt t (t_routes t ! i) m]\<rparr>"
    have step: "traffic_step rt fromPacket spare t ?t"
      using Suc.hyps(2) by (intro traffic_step.Handle Suc.prems(1) Handling) simp
    have "\<exists>t'. (traffic_step rt fromPacket spare)\<^sup>*\<^sup>* ?t t' \<and> routed (t_routes t' ! i)"
      using Suc.hyps Suc.prems Handling by simp
    with step show ?thesis by (meson converse_rtranclp_into_rtranclp)
  qed (use Suc.prems in \<open>auto simp: routed_def\<close>)
qed

section \<open>Properties\<close>

text \<open>C10: calls of \<open>Route\<close> are atomic in effect. Take a packet that arrives in a router with
  recipients and a logger, and whose topic is resolved later, when the aliases may have changed;
  let any other packets, registrations, removals, resets and new loggers interleave before and
  after. When the call has returned it has done what \<open>Route\<close> does in one step, with the
  recipients and the logger of its arrival and the aliases of its resolution, to the last
  handler and log line, panics included; what it stores is what \<open>Route\<close> stores; and it can
  always return.\<close>

theorem routes_are_atomic:
  assumes "mem_ok (t_mem t0)" and "i = length (t_routes t0)"
    and "(traffic_step rt fromPacket spare)\<^sup>*\<^sup>* (enter pb t0) t2"
    and "ro_pc (t_routes t2 ! i) = Snapshotted"
    and "resolve_turn fromPacket t2 (t_routes t2 ! i) = (t3, ro)"
    and "(traffic_step rt fromPacket spare)\<^sup>*\<^sup>* (t3\<lparr>t_routes := (t_routes t2)[i := ro]\<rparr>) t4"
    and "R = \<lparr>entries = mem_list (t_mem t0), aliases = t_aliases t2, debug = t_debug t0\<rparr>"
  shows "(routed (t_routes t4 ! i) \<longrightarrow> ro_run (t_routes t4 ! i) = seq (Route rt fromPacket R pb) (\<lambda>_. ret ()))
    \<and> (\<forall>r. outcome (Route rt fromPacket R pb) = Ret r \<longrightarrow> t_aliases t3 = aliases r)
    \<and> (\<exists>t5. (traffic_step rt fromPacket spare)\<^sup>*\<^sup>* t4 t5 \<and> routed (t_routes t5 ! i))"
proof -
  let ?es = "mem_list (t_mem t0)"
  have w: "waiting pb (t_debug t0) i ?es t2"
    using waiting.reachable_inv [OF assms(3)] assms(1,2) by simp
  have R: "R = (router_of t2)\<lparr>entries := ?es, debug := t_debug t0\<rparr>"
    by (simp add: assms(7) router_of_def)
  have ran: "so_far rt ro ?es = seq (Route rt fromPacket R pb) (\<lambda>_. ret ())"
    and kept: "\<forall>r. outcome (Route rt fromPacket R pb) = Ret r \<longrightarrow> t_aliases t3 = aliases r"
    using resolve_turn_Route [OF _ _ _ assms(5) R, of pb rt] w assms(4) by (auto simp: waiting_def)
  have "serving rt ro i ?es (t3\<lparr>t_routes := (t_routes t2)[i := ro]\<rparr>)"
    by (rule serving_resolved [OF w assms(4,5)])
  then have s: "serving rt ro i ?es t4"
    using serving.reachable_inv [OF assms(6)] by blast
  then have "sl_len (ro_snap (t_routes t4 ! i)) = length ?es"
    by (rule serving_length)
  with s ran kept show ?thesis
    using turns_finish [of i t4 rt fromPacket spare]
    by (auto simp: serving_def reads_def routed_def so_far_def split: route_pc.splits)
qed

section \<open>Concrete inputs\<close>

text \<open>A router with one recipient for \<open>a\<close>, and a packet on that topic.\<close>

definition quiet :: "unit traffic" where
  "quiet = \<lparr>t_mem = AddRecipient_mem (\<lambda>_. 3) empty_mem [''a''] (\<lambda>_. emit [()]),
     t_aliases = Some fmempty, t_debug = Some (\<lambda>_. []), t_routes = []\<rparr>"

definition plain_packet :: packet where
  "plain_packet = \<lparr>pk_Topic = ''a'', pk_QoS = 1, pk_Retain = False, pk_Payload = None, pk_Properties = None\<rparr>"

lemma quiet_ok: "mem_ok (t_mem quiet)"
  and quiet_list: "mem_list (t_mem quiet) = [\<lparr>patterns = [''a''], handler = (\<lambda>_. emit [()])\<rparr>]"
proof -
  have "mem_ok (empty_mem :: unit router_mem)" "mem_list (empty_mem :: unit router_mem) = []"
    by (simp_all add: mem_ok_def valid_def empty_mem_def mem_list_def contents_def)
  then show "mem_ok (t_mem quiet)"
    and "mem_list (t_mem quiet) = [\<lparr>patterns = [''a''], handler = (\<lambda>_. emit [()])\<rparr>]"
    by (simp_all add: quiet_def AddRecipient_mem)
qed

text \<open>The recipient is removed while the call is between its two locks, and is still called.\<close>

theorem routes_are_atomic_witness:
  "\<exists>t t'. (traffic_step example_runtime example_conversion (\<lambda>_. 0))\<^sup>*\<^sup>* (enter plain_packet quiet) t
     \<and> mem_list (t_mem t) = [] \<and> ro_pc (t_routes t ! 0) = Snapshotted
     \<and> (traffic_step example_runtime example_conversion (\<lambda>_. 0))\<^sup>*\<^sup>* t t'
     \<and> effects (ro_run (t_routes t' ! 0)) = [()]"
proof -
  let ?step = "traffic_step example_runtime example_conversion (\<lambda>_. 0)"
  let ?t1 = "enter plain_packet quiet"
  let ?t2 = "?t1\<lparr>t_mem := UnregisterHandler_mem (\<lambda>_. 0) (t_mem quiet) ''a''\<rparr>"
  let ?R = "\<lparr>entries = mem_list (t_mem quiet), aliases = t_aliases ?t2, debug = t_debug quiet\<rparr>"
  have mem: "t_mem ?t1 = t_mem quiet" and routes: "length (t_routes ?t1) = 1"
    and pc: "ro_pc (t_routes ?t2 ! 0) = Snapshotted" and empty: "0 = length (t_routes quiet)"
    by (simp_all add: enter_def quiet_def)
  have step2: "?step ?t1 ?t2"
    using traffic_step.Remove [of example_runtime example_conversion "\<lambda>_. 0" ?t1 "''a''"]
    by (simp only: mem)
  obtain t3 ro where res: "resolve_turn example_conversion ?t2 (t_routes ?t2 ! 0) = (t3, ro)"
    by (rule prod.exhaust)
  let ?t3 = "t3\<lparr>t_routes := (t_routes ?t2)[0 := ro]\<rparr>"
  have step3: "?step ?t2 ?t3"
    by (rule traffic_step.Resolve [OF _ pc res]) (simp add: routes)
  note atomic = routes_are_atomic [OF quiet_ok empty r_into_rtranclp [of ?step, OF step2] pc res _ refl]
  from atomic [OF rtranclp.rtrancl_refl] obtain t5
    where go: "?step\<^sup>*\<^sup>* ?t3 t5" and done5: "routed (t_routes t5 ! 0)" by blast
  have "ro_run (t_routes t5 ! 0) =
      seq (Route example_runtime example_conversion ?R plain_packet) (\<lambda>_. ret ())"
    using atomic [OF go] done5 by blast
  moreover have "t_debug quiet = Some (\<lambda>_. [])" "Matches example_runtime ''a'' ''a''"
    by (simp_all add: quiet_def example_runtime_def)
  ultimately have ran: "effects (ro_run (t_routes t5 ! 0)) = [()]"
    by (simp add: Route_def Let_def quiet_list plain_packet_def normalized_def example_conversion_def
        resolveTopic_def entry_matches_def emit_def)
  have "mem_list (t_mem ?t2) = []"
    using UnregisterHandler_mem [OF quiet_ok, of "\<lambda>_. 0" "''a''"] by (simp add: quiet_list kept_entries_filter)
  with ran pc step2 step3 go show ?thesis
    by (intro exI [of _ ?t2] exI [of _ t5]) (simp add: converse_rtranclp_into_rtranclp)
qed

end
