(* ===== verification/Headers.thy ===== *)
theory Headers
  imports Carrier GoSlices
begin

text \<open>
  The carrier (src/carrier/carrier.go) over Go's slices. \<open>New\<close> keeps the slice it is given, and
  \<open>Set\<close> writes into its array, so that others may see the write. Here the operations of
  \<open>Carrier\<close> are refined to an array in a store; the refinement satisfies the contract of a text
  map carrier too, and the lemmas add which arrays a sequence of \<open>Set\<close> calls writes to.
\<close>

section \<open>The operations\<close>

record carrier_mem =
  car_store :: "user_property store"
  car_props :: slice

abbreviation car_cell :: "carrier_mem \<Rightarrow> nat \<Rightarrow> user_property" where
  "car_cell c i \<equiv> cells (car_store c) (sl_array (car_props c)) ! i"

definition New_mem :: "user_property store \<Rightarrow> slice \<Rightarrow> carrier_mem" where
  "New_mem st ps = \<lparr>car_store = st, car_props = ps\<rparr>"

fun get_mem_loop :: "carrier_mem \<Rightarrow> nat list \<Rightarrow> string \<Rightarrow> string" where
  "get_mem_loop c [] key = ''''"
| "get_mem_loop c (i # is) key =
     (if Key (car_cell c i) = key then Value (car_cell c i) else get_mem_loop c is key)"

definition Get_mem :: "carrier_mem \<Rightarrow> string \<Rightarrow> string" where
  "Get_mem c key = get_mem_loop c [0..<sl_len (car_props c)] key"

text \<open>The assignment \<open>c.props[i].Value = val\<close> writes one field of one cell.\<close>

fun set_mem_loop :: "(nat \<Rightarrow> nat) \<Rightarrow> carrier_mem \<Rightarrow> nat list \<Rightarrow> string \<Rightarrow> string \<Rightarrow> carrier_mem" where
  "set_mem_loop spare c [] key val =
     (let (st, ps) = go_append spare (user '''' '''') (car_store c) (car_props c) (user key val)
      in \<lparr>car_store = st, car_props = ps\<rparr>)"
| "set_mem_loop spare c (i # is) key val =
     (if Key (car_cell c i) = key
      then c\<lparr>car_store := go_write (car_store c) (sl_array (car_props c)) i
               ((car_cell c i)\<lparr>Value := val\<rparr>)\<rparr>
      else set_mem_loop spare c is key val)"

definition Set_mem :: "(nat \<Rightarrow> nat) \<Rightarrow> carrier_mem \<Rightarrow> string \<Rightarrow> string \<Rightarrow> carrier_mem" where
  "Set_mem spare c key val = set_mem_loop spare c [0..<sl_len (car_props c)] key val"

definition Keys_mem :: "carrier_mem \<Rightarrow> string list" where
  "Keys_mem c = map (\<lambda>i. Key (car_cell c i)) [0..<sl_len (car_props c)]"

definition UserProperties_mem :: "carrier_mem \<Rightarrow> slice" where
  "UserProperties_mem c = car_props c"

section \<open>They implement those on lists\<close>

definition car_list :: "carrier_mem \<Rightarrow> user_properties" where
  "car_list c = contents (car_store c) (car_props c)"

definition car_ok :: "carrier_mem \<Rightarrow> bool" where
  "car_ok c \<longleftrightarrow> valid (car_store c) (car_props c)"

lemma car_list_length: "car_ok c \<Longrightarrow> length (car_list c) = sl_len (car_props c)"
  by (simp add: car_ok_def car_list_def length_contents)

lemma car_cell_list: "car_ok c \<Longrightarrow> i < sl_len (car_props c) \<Longrightarrow> car_cell c i = car_list c ! i"
  by (simp add: car_list_def contents_def)

lemma car_cells: "car_ok c \<Longrightarrow> map (car_cell c) [0..<sl_len (car_props c)] = car_list c"
  using car_list_length [of c] by (intro nth_equalityI) (simp_all add: car_cell_list)

lemma Keys_mem_list: "car_ok c \<Longrightarrow> Keys_mem c = map Key (car_list c)"
  by (simp add: Keys_mem_def flip: car_cells)

lemma get_mem_loop_list: "get_mem_loop c is key = get_loop (map (car_cell c) is) key"
  by (induction "is") simp_all

lemma Get_mem_list: "car_ok c \<Longrightarrow> Get_mem c key = get_loop (car_list c) key"
  by (simp add: Get_mem_def get_mem_loop_list car_cells)

text \<open>What one \<open>Set\<close> does: to the carrier's own list, to its array, and to the other arrays.\<close>

definition own_writes :: "carrier_mem \<Rightarrow> carrier_mem \<Rightarrow> bool" where
  "own_writes c c' \<longleftrightarrow>
     (\<forall>a < next_free (car_store c). a \<noteq> sl_array (car_props c) \<longrightarrow>
        cells (car_store c') a = cells (car_store c) a)
     \<and> next_free (car_store c) \<le> next_free (car_store c')
     \<and> (sl_array (car_props c') = sl_array (car_props c)
        \<or> next_free (car_store c) \<le> sl_array (car_props c'))"

lemma set_mem_loop_spec:
  assumes "car_ok c" "j \<le> sl_len (car_props c)"
  shows "let c' = set_mem_loop spare c [j..<sl_len (car_props c)] k v
    in car_ok c' \<and> car_list c' = take j (car_list c) @ set_loop (drop j (car_list c)) k v
      \<and> own_writes c c'
      \<and> contents (car_store c') (car_props c) = take (sl_len (car_props c)) (car_list c')"
  using assms(2)
proof (induction "sl_len (car_props c) - j" arbitrary: j)
  case 0
  then have j: "j = sl_len (car_props c)" by simp
  obtain st ps where ap: "go_append spare (user '''' '''') (car_store c) (car_props c) (user k v) = (st, ps)"
    by fastforce
  have v: "valid (car_store c) (car_props c)" using assms(1) by (simp add: car_ok_def)
  have "contents st (car_props c) = car_list c"
    using ap v by (auto simp: go_append_def car_list_def contents_def alloc_def valid_def split: if_splits)
  moreover have "(\<forall>a < next_free (car_store c). a \<noteq> sl_array (car_props c) \<longrightarrow>
        cells st a = cells (car_store c) a)
     \<and> next_free (car_store c) \<le> next_free st
     \<and> (sl_array ps = sl_array (car_props c) \<or> next_free (car_store c) \<le> sl_array ps)"
    using ap by (auto simp: go_append_def alloc_def split: if_splits)
  ultimately show ?case
    using go_append_contents [OF v ap] car_list_length [OF assms(1)]
    by (simp add: j Let_def ap car_ok_def car_list_def [of "\<lparr>car_store = st, car_props = ps\<rparr>"]
        own_writes_def) (simp add: car_list_def)
next
  case (Suc n)
  then have j: "j < sl_len (car_props c)" by simp
  then have up: "[j..<sl_len (car_props c)] = j # [Suc j..<sl_len (car_props c)]"
    by (simp add: upt_conv_Cons)
  have len: "j < length (car_list c)" using j car_list_length [OF assms(1)] by simp
  note cell = car_cell_list [OF assms(1) j]
  have drop: "drop j (car_list c) = car_list c ! j # drop (Suc j) (car_list c)"
    by (rule Cons_nth_drop_Suc [OF len, symmetric])
  show ?case
  proof (cases "Key (car_cell c j) = k")
    case True
    let ?p = "(car_list c ! j)\<lparr>Value := v\<rparr>"
    let ?c = "c\<lparr>car_store := go_write (car_store c) (sl_array (car_props c)) j ?p\<rparr>"
    have "car_list ?c = (car_list c)[j := ?p]"
      using j by (simp add: car_list_def contents_def go_write_def take_update_swap)
    then have "car_list ?c = take j (car_list c) @ set_loop (drop j (car_list c)) k v"
      using len True by (simp add: drop upd_conv_take_nth_drop cell)
    moreover have "car_ok ?c" "own_writes c ?c"
      using assms(1) by (auto simp: car_ok_def valid_def go_write_def own_writes_def)
    moreover have "contents (car_store ?c) (car_props c) = take (sl_len (car_props c)) (car_list ?c)"
      by (simp add: car_list_def contents_def)
    ultimately show ?thesis using True by (simp add: up Let_def cell)
  next
    case False
    then have "take (Suc j) (car_list c) @ set_loop (drop (Suc j) (car_list c)) k v
        = take j (car_list c) @ set_loop (drop j (car_list c)) k v"
      using len by (simp add: drop take_Suc_conv_app_nth cell)
    then show ?thesis
      using Suc.hyps(1) [of "Suc j"] Suc.hyps(2) j False by (simp add: up Let_def)
  qed
qed

lemma Set_mem_list:
  assumes "car_ok c"
  shows "car_ok (Set_mem spare c k v)"
    and "car_list (Set_mem spare c k v) = set_loop (car_list c) k v"
    and "own_writes c (Set_mem spare c k v)"
    and "contents (car_store (Set_mem spare c k v)) (car_props c)
      = take (sl_len (car_props c)) (set_loop (car_list c) k v)"
  using set_mem_loop_spec [OF assms, of 0 spare k v] by (simp_all add: Set_mem_def Let_def)

interpretation mem: text_map_carrier Get_mem "Set_mem spare" Keys_mem car_ok for spare
proof unfold_locales
  fix c k v k'
  assume ok: "car_ok c"
  then show "car_ok (Set_mem spare c k v)"
    and "Get_mem (Set_mem spare c k v) k' = (if k' = k then v else Get_mem c k')"
    and "Keys_mem (Set_mem spare c k v) = (if k \<in> set (Keys_mem c) then Keys_mem c else Keys_mem c @ [k])"
    by (simp_all add: Set_mem_list(1,2) Get_mem_list Keys_mem_list get_set_loop keys_set_loop)
  show "k \<notin> set (Keys_mem c) \<Longrightarrow> Get_mem c k = ''''"
    using ok by (simp add: Get_mem_list Keys_mem_list get_loop_absent)
qed

definition set_all_mem :: "(nat \<Rightarrow> nat) \<Rightarrow> carrier_mem \<Rightarrow> (string \<times> string) list \<Rightarrow> carrier_mem" where
  "set_all_mem spare c kvs = foldl (\<lambda>c (k, v). Set_mem spare c k v) c kvs"

lemma own_writes_refl: "own_writes c c"
  by (simp add: own_writes_def)

lemma own_writes_trans: "own_writes c d \<Longrightarrow> own_writes d e \<Longrightarrow> own_writes c e"
  unfolding own_writes_def by auto

lemma set_all_mem_list:
  assumes "car_ok c"
  shows "car_ok (set_all_mem spare c kvs)
    \<and> car_list (set_all_mem spare c kvs) = props (set_all (New (car_list c)) kvs)
    \<and> own_writes c (set_all_mem spare c kvs)"
  using assms
proof (induction kvs arbitrary: c)
  case Nil
  then show ?case by (simp add: set_all_mem_def set_all_def New_def own_writes_refl)
next
  case (Cons kv kvs)
  obtain k v where kv: "kv = (k, v)" by fastforce
  note one = Set_mem_list [OF Cons.prems, of spare k v]
  have "set_all_mem spare c (kv # kvs) = set_all_mem spare (Set_mem spare c k v) kvs"
    "set_all (New (car_list c)) (kv # kvs) = set_all (New (set_loop (car_list c) k v)) kvs"
    by (simp_all add: set_all_mem_def set_all_def kv Set_def New_def)
  then show ?case
    using Cons.IH [OF one(1)] one own_writes_trans [OF one(3)] by simp
qed

text \<open>What a slice of the old length sees of a \<open>Set\<close>.\<close>

lemma take_set_loop:
  "take (length ps) (set_loop ps k v) = (if k \<in> Key ` set ps then set_loop ps k v else ps)"
  by (induction ps) auto

section \<open>Properties\<close>

text \<open>C37: the carrier on slices. After any sequence of \<open>Set\<close> calls, however \<open>append\<close> grows its arrays,
  a carrier reads as the list it stands for; of the arrays that existed before, only the one
  it was made over may have changed. A slice shared with \<open>New\<close> sees the new value of a key it
  holds, since \<open>Set\<close> writes that in place, but never a new key.\<close>

theorem carrier_in_place:
  assumes "car_ok c"
  shows "(let c' = foldl (\<lambda>c (k, v). Set_mem spare c k v) c kvs;
         l = foldl (\<lambda>c (k, v). Set c k v) (New (car_list c)) kvs
     in car_ok c' \<and> contents (car_store c') (UserProperties_mem c') = UserProperties l
       \<and> Get_mem c' key = Get l key \<and> Keys_mem c' = Keys l
       \<and> (\<forall>a < next_free (car_store c).
            a = sl_array (car_props c) \<or> cells (car_store c') a = cells (car_store c) a))
    \<and> (let shared = contents (car_store (Set_mem spare c k v)) (car_props c)
       in map Key shared = Keys_mem c
         \<and> get_loop shared key =
             (if key = k \<and> k \<in> set (Keys_mem c) then v else Get_mem c key))"
proof -
  have all: "foldl (\<lambda>c (k, v). Set_mem spare c k v) c kvs = set_all_mem spare c kvs"
    "foldl (\<lambda>c (k, v). Set c k v) (New (car_list c)) kvs = set_all (New (car_list c)) kvs"
    by (simp_all add: set_all_mem_def set_all_def)
  note sets = set_all_mem_list [OF assms, of spare kvs]
  have "\<forall>a < next_free (car_store c). a = sl_array (car_props c)
      \<or> cells (car_store (set_all_mem spare c kvs)) a = cells (car_store c) a"
    using sets by (auto simp: own_writes_def)
  moreover have "contents (car_store (Set_mem spare c k v)) (car_props c)
      = (if k \<in> set (Keys_mem c) then set_loop (car_list c) k v else car_list c)"
    using Set_mem_list(4) [OF assms, of spare k v] take_set_loop [of "car_list c" k v]
    by (simp add: car_list_length [OF assms] Keys_mem_list [OF assms])
  ultimately show ?thesis
    using sets assms
    by (simp add: all Get_mem_list Keys_mem_list Get_def Keys_def UserProperties_def
        UserProperties_mem_def get_set_loop keys_set_loop flip: car_list_def)
qed

section \<open>A shared slice\<close>

text \<open>Two properties in an array of three cells, of which another slice sees the first two.\<close>

definition example_car :: carrier_mem where
  "example_car = \<lparr>car_store = \<lparr>cells = (\<lambda>_. [user ''a'' ''1'', user ''b'' ''2'', user '''' '''']),
       next_free = 1\<rparr>,
     car_props = \<lparr>sl_array = 0, sl_len = 2, sl_cap = 3\<rparr>\<rparr>"

theorem carrier_in_place_witness:
  "car_ok example_car
   \<and> Keys_mem (Set_mem (\<lambda>_. 0) example_car ''c'' ''3'') = [''a'', ''b'', ''c'']
   \<and> get_loop (contents (car_store (Set_mem (\<lambda>_. 0) example_car ''b'' ''9'')) (car_props example_car)) ''b''
       = ''9''"
proof -
  have ok: "car_ok example_car" "car_list example_car = [user ''a'' ''1'', user ''b'' ''2'']"
    by (simp_all add: car_ok_def car_list_def valid_def contents_def example_car_def numeral_2_eq_2)
  then show ?thesis
    using carrier_in_place [OF ok(1), of "\<lambda>_. 0" "[(''c'', ''3'')]" "''b''" "''b''" "''9''"]
    by (simp add: Let_def Keys_mem_list Keys_def keys_set_loop New_def Set_def)
qed

end
