(* ===== verification/Protocol.thy ===== *)
theory Protocol
  imports Lifecycle
begin

text \<open>
  What a client does, without how: an abstract machine of seven variables, over abstract inputs
  and visible outputs, and the proof that the client of src/client/client.go implements it.
  Routers, wire formats, limiters, metrics and channels do not occur in it; it is the contract
  that a user of a client relies on.
\<close>

section \<open>The abstract machine\<close>

datatype 'e input =
    Connected | Lost | Failed | Packet | Stopped | CallerGone 'e | ManagerGone
  | Ready | Aborted 'e | Deserted

datatype visible =
    Subscribes | CallsConnectHook | CallsDisconnectHook | ReleasesStart | GivesUp nat | Disconnects
  | Cancels

datatype phase = Starting | Running | Broken

text \<open>
  Whether the client holds a connection, whether there ever was one, how many attempts the
  outage has taken (unknown before the first connection), whether the run is cancelled, and
  what has become of the caller's context and of the manager, which is what lets \<open>Start\<close> give up.
\<close>

record 'e proto =
  phase :: phase
  online :: bool
  connected_before :: bool
  outage_len :: "nat option"
  cancelled :: bool
  caller_error :: "'e option"
  manager_gone :: bool

record contract =
  has_subscriptions :: bool
  has_connect_hook :: bool
  has_disconnect_hook :: bool
  attempt_limit :: int

definition proto_start :: "'e proto" where
  "proto_start = \<lparr>phase = Starting, online = False, connected_before = False, outage_len = None,
     cancelled = False, caller_error = None, manager_gone = False\<rparr>"

fun proto_enabled :: "'e proto \<Rightarrow> 'e input \<Rightarrow> bool" where
  "proto_enabled a Ready \<longleftrightarrow> phase a = Starting \<and> connected_before a"
| "proto_enabled a (Aborted e) \<longleftrightarrow> phase a = Starting \<and> caller_error a = Some e"
| "proto_enabled a Deserted \<longleftrightarrow> phase a = Starting \<and> manager_gone a"
| "proto_enabled a _ \<longleftrightarrow> True"

fun proto_event :: "contract \<Rightarrow> 'e proto \<Rightarrow> 'e input \<Rightarrow> 'e proto \<times> visible list" where
  "proto_event k a Connected =
     (a\<lparr>online := True, connected_before := True, outage_len := Some 0\<rparr>,
      (if has_subscriptions k then [Subscribes] else [])
      @ (if has_connect_hook k then [CallsConnectHook] else [])
      @ (if connected_before a then [] else [ReleasesStart]))"
| "proto_event k a Lost =
     (a\<lparr>online := False\<rparr>, if has_disconnect_hook k then [CallsDisconnectHook] else [])"
| "proto_event k a Failed =
     (case outage_len a of
        None \<Rightarrow> (a, [])
      | Some n \<Rightarrow>
          if attempt_limit k \<le> 0 then (a, [])
          else if int (Suc n) < attempt_limit k then (a\<lparr>outage_len := Some (Suc n)\<rparr>, [])
          else (a\<lparr>outage_len := Some (Suc n), cancelled := True\<rparr>, [GivesUp (Suc n), Cancels]))"
| "proto_event k a Packet = (a, [])"
| "proto_event k a Ready = (a\<lparr>phase := Running\<rparr>, [])"
| "proto_event k a (Aborted e) = (a\<lparr>phase := Broken, cancelled := True\<rparr>, [Cancels])"
| "proto_event k a Deserted = (a\<lparr>phase := Broken, cancelled := True\<rparr>, [Cancels])"
| "proto_event k a (CallerGone e) =
     (a\<lparr>caller_error := (if caller_error a = None then Some e else caller_error a)\<rparr>, [])"
| "proto_event k a ManagerGone = (a\<lparr>manager_gone := True\<rparr>, [])"
| "proto_event k a Stopped =
     (if phase a = Running then (a\<lparr>online := False, cancelled := True\<rparr>, [Disconnects, Cancels])
      else (a, []))"

text \<open>A state with what has come in and gone out so far.\<close>

record 'e trace =
  now :: "'e proto"
  received :: "'e input list"
  shown :: "visible list"

definition proceed :: "contract \<Rightarrow> 'e trace \<Rightarrow> 'e input \<Rightarrow> 'e trace" where
  "proceed k t i =
     (case proto_event k (now t) i of (a, os) \<Rightarrow>
        \<lparr>now = a, received = received t @ [i], shown = shown t @ os\<rparr>)"

inductive proto_step :: "contract \<Rightarrow> 'e trace \<Rightarrow> 'e trace \<Rightarrow> bool" for k :: contract where
  Input: "proto_enabled (now t) i \<Longrightarrow> proto_step k t (proceed k t i)"

inductive_cases proto_stepE: "proto_step k t u"

definition proto_begin :: "'e trace" where
  "proto_begin = \<lparr>now = proto_start, received = [], shown = []\<rparr>"

section \<open>What is abstracted from\<close>

definition contract_of :: "('c, 'm, 'e) client \<Rightarrow> contract" where
  "contract_of c = \<lparr>has_subscriptions = (buildSubscribeOptions c \<noteq> []),
     has_connect_hook = (OnConnect (c_cfg c) \<noteq> None),
     has_disconnect_hook = (OnDisconnect (c_cfg c) \<noteq> None),
     attempt_limit = sint (MaxReconnectAttempts (c_cfg c))\<rparr>"

fun input_of :: "('c, 'e) event \<Rightarrow> 'e input" where
  "input_of (ConnectionUp cm) = Connected"
| "input_of ConnectionDown = Lost"
| "input_of (AttemptFailed e) = Failed"
| "input_of (PacketIn pb) = Packet"
| "input_of (StartReturns cm sel) =
     (case sel of StartReady \<Rightarrow> Ready | ContextDone e \<Rightarrow> Aborted e | ManagerDone \<Rightarrow> Deserted)"
| "input_of (StopCall x) = Stopped"
| "input_of (ContextEnds e) = CallerGone e"
| "input_of ManagerEnds = ManagerGone"

fun output_of :: "('c, 'm, 'e) client_effect \<Rightarrow> visible list" where
  "output_of (SubscribeCall ctx opts) = [Subscribes]"
| "output_of (ConnectHook h ctx) = [CallsConnectHook]"
| "output_of (DisconnectHook h ctx) = [CallsDisconnectHook]"
| "output_of StartReadyClosed = [ReleasesStart]"
| "output_of (LogGivingUp n m) = [GivesUp (unat n)]"
| "output_of (DisconnectCall ctx) = [Disconnects]"
| "output_of CancelRun = [Cancels]"
| "output_of _ = []"

definition outputs :: "('c, 'm, 'e) client_effect list \<Rightarrow> visible list" where
  "outputs fs = concat (map output_of fs)"

fun phase_of :: "'e start_state \<Rightarrow> phase" where
  "phase_of Waiting = Starting"
| "phase_of Started = Running"
| "phase_of (StartFailed e) = Broken"

definition outage_of :: "limiter option \<Rightarrow> nat option" where
  "outage_of l =
     (case l of
        None \<Rightarrow> None
      | Some r \<Rightarrow> if connectedOnce r then Some (unat (failures r)) else None)"

definition abs_client :: "('c, 'm, 'e) life \<Rightarrow> 'e proto" where
  "abs_client s = \<lparr>phase = phase_of (l_start s), online = c_connected (l_client s),
     connected_before = r_readyClosed (l_run s), outage_len = outage_of (r_limiter (l_run s)),
     cancelled = (CancelRun \<in> set (l_effects s)), caller_error = ctx_error (l_events s),
     manager_gone = manager_ended (l_events s)\<rparr>"

definition abs_life :: "('c, 'm, 'e) life \<Rightarrow> 'e trace" where
  "abs_life s = \<lparr>now = abs_client s, received = map input_of (l_events s), shown = outputs (l_effects s)\<rparr>"

lemma outputs_simps [simp]:
  "outputs [] = []" "outputs (f # fs) = output_of f @ outputs fs"
  "outputs (fs @ gs) = outputs fs @ outputs gs" "outputs (map ClientMeasure ms) = []"
  by (induction ms) (simp_all add: outputs_def)

lemma outputs_deliveries: "\<forall>f \<in> set fs. is_delivery f \<Longrightarrow> outputs fs = []"
  by (induction fs) (auto simp: is_delivery_def split: client_effect.splits)

lemma enabled_abs: "enabled s e \<longleftrightarrow> proto_enabled (abs_client s) (input_of e)"
proof (cases e)
  case (StartReturns cm sel)
  then show ?thesis by (cases sel; cases "l_start s") (auto simp: abs_client_def)
qed simp_all

section \<open>One event\<close>

text \<open>The limiter of a client that has seen fewer events than Go's \<open>int\<close> can count.\<close>

lemma attempts_length: "length (attempts es) \<le> length es"
  by (induction es) (auto simp: attempts_def split: event.split)

lemma client_limiter:
  assumes "limiter_inv c0 s" "c_logger c0 = Some lg" "length (l_events s) < 2 ^ 63"
  shows "r_limiter (l_run s) = Some (limiter_after (MaxReconnectAttempts (c_cfg c0)) lg (attempts (l_events s)))"
proof -
  obtain fs r where "limiter_run (Some (new_limiter (MaxReconnectAttempts (c_cfg c0)) (Some lg)))
      (attempts (l_events s)) = (fs, Ret (r_limiter (l_run s)))"
    using assms(1,2) by (auto simp: limiter_inv_def limiter_state_def)
  then show ?thesis
    using limiter_run_outcome [of "attempts (l_events s)" "MaxReconnectAttempts (c_cfg c0)" lg]
      attempts_length [of "l_events s"] assms(3) by simp
qed

lemma outage_of_after:
  assumes "length as < 2 ^ 63"
  shows "outage_of (Some (limiter_after m lg as)) =
    (if 0 <s m then outage as else map_option (\<lambda>_. 0) (outage as))"
proof (cases "outage as")
  case (Some n)
  then have "n < 2 ^ 63" using outage_less assms by fastforce
  then have "unat (of_nat n :: goint) = n"
    by (simp add: unat_of_nat take_bit_nat_eq_self)
  with Some show ?thesis by (simp add: outage_of_def limiter_after_def)
qed (simp add: outage_of_def limiter_after_def)

lemma proto_Failed:
  assumes "outage_len a = (if 0 <s m then outage as else map_option (\<lambda>_. 0) (outage as))"
    and "attempt_limit k = sint m"
  shows "proto_event k a Failed =
    (a\<lparr>outage_len := (if 0 <s m then outage (as @ [Fail]) else outage_len a),
       cancelled := cancelled a \<or> gives_up m as\<rparr>,
     if gives_up m as then [GivesUp (Suc (the (outage as))), Cancels] else [])"
  using assms
  by (cases "outage as") (auto simp: gives_up_def word_sless_alt)

lemma refines_AttemptFailed:
  assumes "well_built c0" "life_inv rt fp ctx c0 s" "length (l_events s) < 2 ^ 63 - 1"
    and "life_event rt fp ctx s (AttemptFailed x) = (fs, Ret s')"
  shows "proto_event (contract_of c0) (abs_client s) Failed =
    (abs_client (recorded s (AttemptFailed x) fs s'), outputs fs)"
proof -
  let ?m = "MaxReconnectAttempts (c_cfg c0)" and ?as = "attempts (l_events s)"
  note inv = life_invD [OF assms(2)]
  obtain lg where lg: "c_logger c0 = Some lg"
    using assms(1) by (auto simp: well_built_def)
  have short: "length ?as < 2 ^ 63 - 1" "length ?as < 2 ^ 63" "length (?as @ [Fail]) < 2 ^ 63"
    using attempts_length [of "l_events s"] assms(3) by simp_all
  have lim: "r_limiter (l_run s) = Some (limiter_after ?m lg ?as)"
    using client_limiter [OF inv(6) lg] assms(3) by simp
  have log: "c_logger (l_client s) \<noteq> None"
    using inv(1) lg by (simp add: same_setup_def)
  let ?fs = "if gives_up ?m ?as then [GivingUp (of_nat (Suc (the (outage ?as)))) ?m, StopRun] else []"
  have "limiter_step (r_limiter (l_run s)) Fail = (?fs, Ret (Some (limiter_after ?m lg (?as @ [Fail]))))"
    using limiter_step_after [OF short(1), of ?m lg Fail] by (simp add: lim ret_def)
  from event_AttemptFailed [OF log this, of rt fp ctx x] assms(4)
  have run: "fs = LogAttemptFailed x # map limiter_line ?fs"
    "s' = s\<lparr>l_run := (l_run s)\<lparr>r_limiter := Some (limiter_after ?m lg (?as @ [Fail]))\<rparr>\<rparr>"
    by simp_all
  have "unat (of_nat (Suc (the (outage ?as))) :: goint) = Suc (the (outage ?as))" if "gives_up ?m ?as"
  proof -
    obtain n where "outage ?as = Some n" using \<open>gives_up ?m ?as\<close> by (auto simp: gives_up_def)
    then have "Suc n < 2 ^ 64" "the (outage ?as) = n"
      using outage_less [of ?as n] short(1) by simp_all
    then show ?thesis by (simp add: unat_of_nat take_bit_nat_eq_self del: of_nat_Suc)
  qed
  then have outs: "outputs fs = (if gives_up ?m ?as then [GivesUp (Suc (the (outage ?as))), Cancels] else [])"
    by (simp add: run(1) del: of_nat_Suc)
  have cancels: "CancelRun \<in> set fs \<longleftrightarrow> gives_up ?m ?as"
    by (cases "gives_up ?m ?as") (simp_all add: run(1))
  have len: "outage_len (abs_client s) = (if 0 <s ?m then outage ?as else map_option (\<lambda>_. 0) (outage ?as))"
    by (simp add: abs_client_def lim outage_of_after [OF short(2)])
  have "abs_client (recorded s (AttemptFailed x) fs s') =
    (abs_client s)\<lparr>outage_len := (if 0 <s ?m then outage (?as @ [Fail]) else outage_len (abs_client s)),
       cancelled := cancelled (abs_client s) \<or> gives_up ?m ?as\<rparr>"
    using outage_of_after [OF short(3), of ?m lg] outage_of_after [OF short(2), of ?m lg]
    by (cases "outage ?as") (simp_all add: abs_client_def run(2) lim cancels)
  with proto_Failed [OF len, of "contract_of c0"] outs show ?thesis
    by (simp add: contract_of_def del: proto_event.simps)
qed

lemma abs_limiter_up: "outage_of (limiter_connected (Some r)) = Some 0"
  by (simp add: limiter_connected_def outage_of_def)

lemma outputs_up:
  "outputs (up_effects c first ctx cm) =
     (if buildSubscribeOptions c \<noteq> [] then [Subscribes] else [])
     @ (if OnConnect (c_cfg c) \<noteq> None then [CallsConnectHook] else [])
     @ (if first then [ReleasesStart] else [])"
  "outputs (down_effects c ctx) =
     (if OnDisconnect (c_cfg c) \<noteq> None then [CallsDisconnectHook] else [])"
  by (auto simp: up_effects_def down_effects_def split: option.split)

lemma no_cancel_down: "CancelRun \<notin> set (down_effects c ctx)"
  by (auto simp: down_effects_def split: option.split)

text \<open>Every event of the client is the abstract one, in what it leaves and in what it shows.\<close>

lemma life_event_refines:
  assumes "converts fp" "well_built c0" "life_inv rt fp ctx c0 s" "length (l_events s) < 2 ^ 63 - 1"
    and "life_event rt fp ctx s e = (fs, Ret s')"
  shows "proto_event (contract_of c0) (abs_client s) (input_of e) =
    (abs_client (recorded s e fs s'), outputs fs)"
proof -
  note inv = life_invD [OF assms(3)]
  have cfg: "buildSubscribeOptions (l_client s) = buildSubscribeOptions c0" "c_cfg (l_client s) = c_cfg c0"
    "c_logger (l_client s) \<noteq> None"
    using inv(1) same_setup_options assms(2) by (auto simp: same_setup_def well_built_def)
  have ready: "r_readyClosed (l_run s) \<longleftrightarrow> \<not> r_firstConn (l_run s)"
    using inv(2) by (simp add: wiring_inv_def Let_def)
  obtain r where r: "r_limiter (l_run s) = Some r"
    using inv(6) by (auto simp: limiter_inv_def limiter_state_def)
  show ?thesis
  proof (cases e)
    case (ConnectionUp cm)
    with event_ConnectionUp [of s rt fp ctx cm] cfg(3) ready assms(5) show ?thesis
      by (auto simp: abs_client_def contract_of_def outputs_up cfg r abs_limiter_up up_effects_simps)
  next
    case ConnectionDown
    with event_ConnectionDown [of rt fp ctx s] assms(5) show ?thesis
      by (auto simp: abs_client_def contract_of_def outputs_up cfg no_cancel_down)
  next
    case (AttemptFailed x)
    with refines_AttemptFailed [OF assms(2-4), of x fs s'] assms(5) show ?thesis
      by (simp del: proto_event.simps)
  next
    case (PacketIn pb)
    have "router_ok rt c0 ctx (r_router (l_run s))"
      using inv(4) unfolding router_inv_def by blast
    from event_PacketIn [OF assms(1,2) this, of pb] PacketIn assms(5)
    have fs: "fs = (let topic = snd (resolved (r_router (l_run s)) pb)
        in if topic = '''' then [] else deliveries rt c0 ctx pb topic)"
      and s': "s' = s\<lparr>l_run := (l_run s)\<lparr>r_router := fst (resolved (r_router (l_run s)) pb)\<rparr>\<rparr>"
      by (simp_all add: case_prod_beta Let_def)
    from fs have "\<forall>f \<in> set fs. is_delivery f"
      by (simp add: Let_def deliveries_are_deliveries)
    with s' show ?thesis
      using PacketIn deliveries_only [of fs] outputs_deliveries [of fs] by (simp add: abs_client_def)
  next
    case (StartReturns cm sel)
    with event_StartReturns [of rt fp ctx s cm sel] assms(5) show ?thesis
      by (cases sel) (auto simp: abs_client_def)
  next
    case (StopCall x)
    with event_StopCall [OF inv(3), of rt fp ctx x] assms(5) show ?thesis
      by (cases "l_start s") (auto simp: abs_client_def split: option.split)
  qed (use assms(5) in \<open>auto simp: abs_client_def ret_def split: option.split\<close>)
qed

section \<open>The simulation\<close>

text \<open>The life of a client over histories that Go's \<open>int\<close> can count.\<close>

definition short_step ::
  "'c runtime \<Rightarrow> (packet \<Rightarrow> publish outcome) \<Rightarrow> 'c \<Rightarrow> ('c, 'm, 'e) life \<Rightarrow> ('c, 'm, 'e) life \<Rightarrow> bool" where
  "short_step rt fp ctx s t \<longleftrightarrow> life_step rt fp ctx s t \<and> length (l_events t) < 2 ^ 63"

lemma life_step_abs:
  assumes "converts fp" "well_built c0" "life_inv rt fp ctx c0 s" "short_step rt fp ctx s t"
  shows "proto_step (contract_of c0) (abs_life s) (abs_life t)"
proof -
  from assms(4) obtain e fs s' where e: "enabled s e" "life_event rt fp ctx s e = (fs, Ret s')"
    and t: "t = recorded s e fs s'"
    by (auto simp: short_step_def recorded_def elim: life_stepE)
  have "length (l_events s) < 2 ^ 63 - 1"
    using assms(4) by (simp add: short_step_def t)
  from life_event_refines [OF assms(1-3) this e(2)]
  have "abs_life t = proceed (contract_of c0) (abs_life s) (input_of e)"
    by (simp add: abs_life_def proceed_def t del: proto_event.simps)
  moreover have "proto_enabled (now (abs_life s)) (input_of e)"
    using e(1) by (simp add: abs_life_def enabled_abs)
  ultimately show ?thesis by (simp add: proto_step.Input)
qed

interpretation implements: simulation
  "begin_life rt c0 ctx" "short_step rt fp ctx"
  "\<lambda>s. converts fp \<and> well_built c0 \<longrightarrow> life_inv rt fp ctx c0 s"
  abs_life "\<lambda>x y. converts fp \<and> well_built c0 \<longrightarrow> proto_step (contract_of c0) x y"
  for rt c0 ctx fp
proof unfold_locales
  fix s t
  assume inv: "converts fp \<and> well_built c0 \<longrightarrow> life_inv rt fp ctx c0 s" and step: "short_step rt fp ctx s t"
  then show "converts fp \<and> well_built c0 \<longrightarrow> life_inv rt fp ctx c0 t"
    using lifecycle.inv_step [of fp c0 rt ctx s t] by (simp add: short_step_def)
  show "converts fp \<and> well_built c0 \<longrightarrow> proto_step (contract_of c0) (abs_life s) (abs_life t)"
    using life_step_abs [of fp c0 rt ctx s t] inv step by simp
qed (simp add: begin_life_inv)

lemma short_history:
  "(life_step rt fp ctx)\<^sup>*\<^sup>* s t \<Longrightarrow> length (l_events t) < 2 ^ 63 \<Longrightarrow> (short_step rt fp ctx)\<^sup>*\<^sup>* s t"
proof (induction rule: rtranclp_induct)
  case (step t u)
  then have "short_step rt fp ctx t u" "length (l_events t) < 2 ^ 63"
    by (auto simp: short_step_def elim!: life_stepE)
  then show ?case using step.IH by simp
qed simp

lemma proto_deterministic:
  "(proto_step k)\<^sup>*\<^sup>* proto_begin t \<Longrightarrow> t = foldl (proceed k) proto_begin (received t)"
proof (induction rule: rtranclp_induct)
  case (step t u)
  then show ?case by (auto simp: proceed_def split: prod.splits elim!: proto_stepE)
qed (simp add: proto_begin_def)

lemma abs_life_begin: "well_built c0 \<Longrightarrow> abs_life (begin_life rt c0 ctx) = proto_begin"
  by (simp add: abs_life_def abs_client_def begin_life_def proto_begin_def proto_start_def outage_of_def
      new_limiter_def well_built_def)

section \<open>Properties\<close>

text \<open>C4: the client implements the abstract protocol. Whatever has come in, the state of the client is
  that of the abstract machine, and what it has shown, every subscription request, hook,
  release of \<open>Start\<close>, disconnect, giving up and cancellation, in order, is what the abstract
  machine shows: a function of the inputs alone. And the client can take an input exactly when
  the abstract machine can, so neither can do what the other cannot. The bound is the range
  of Go's \<open>int\<close>, in which the attempts of an outage are counted.\<close>

theorem client_refines_protocol:
  assumes "converts fp" and "well_built c0"
    and "(life_step rt fp ctx)\<^sup>*\<^sup>* (begin_life rt c0 ctx) s" and "length (l_events s) < 2 ^ 63"
  shows "(proto_step (contract_of c0))\<^sup>*\<^sup>* proto_begin (abs_life s)
    \<and> abs_life s = foldl (proceed (contract_of c0)) proto_begin (map input_of (l_events s))
    \<and> (\<forall>e. proto_enabled (now (abs_life s)) (input_of e)
         \<longleftrightarrow> (\<exists>t. life_step rt fp ctx s t \<and> l_events t = l_events s @ [e]))"
proof -
  have run: "(proto_step (contract_of c0))\<^sup>*\<^sup>* proto_begin (abs_life s)"
    using implements.reachable_simulated [of rt fp ctx c0 s] short_history [OF assms(3,4)] assms(1,2)
    by (simp add: abs_life_begin)
  moreover have "received (abs_life s) = map input_of (l_events s)"
    by (simp add: abs_life_def)
  moreover have "proto_enabled (now (abs_life s)) (input_of e)
      \<longleftrightarrow> (\<exists>t. life_step rt fp ctx s t \<and> l_events t = l_events s @ [e])" for e
  proof
    assume "proto_enabled (now (abs_life s)) (input_of e)"
    then have e: "enabled s e" by (simp add: abs_life_def enabled_abs)
    obtain fs s' where "life_event rt fp ctx s e = (fs, Ret s')"
      using life_event_inv [OF assms(1,2) reachable_life_inv [OF assms(1-3)] e] by blast
    from life_step.Event [OF e this] show "\<exists>t. life_step rt fp ctx s t \<and> l_events t = l_events s @ [e]"
      by (intro exI [of _ "recorded s e fs s'"]) (simp add: recorded_def)
  next
    assume "\<exists>t. life_step rt fp ctx s t \<and> l_events t = l_events s @ [e]"
    then have "enabled s e" by (auto elim!: life_stepE)
    then show "proto_enabled (now (abs_life s)) (input_of e)"
      by (simp add: abs_life_def enabled_abs)
  qed
  ultimately show ?thesis
    using proto_deterministic [OF run] by simp
qed

text \<open>The example client connects, starts, loses the connection and gives up after one attempt.\<close>

theorem client_refines_protocol_witness:
  "\<exists>s. example_step\<^sup>*\<^sup>* example_start s \<and> l_events s = example_history
     \<and> outputs (l_effects s) = [Subscribes, CallsConnectHook, ReleasesStart, GivesUp 1, Cancels]"
proof -
  obtain s where s: "example_step\<^sup>*\<^sup>* example_start s" "l_events s = example_history"
    using example_run by blast
  have "contract_of example_client = \<lparr>has_subscriptions = True, has_connect_hook = True,
      has_disconnect_hook = False, attempt_limit = 1\<rparr>"
    by (simp add: contract_of_def example_client_simps example_config_def buildSubscribeOptions_eq
        BrokerSubscriptions_def example_subscriber_def)
  moreover have "length (l_events s) < 2 ^ 63"
    by (simp add: s(2) example_history_def)
  ultimately have "abs_life s = foldl (proceed \<lparr>has_subscriptions = True, has_connect_hook = True,
      has_disconnect_hook = False, attempt_limit = 1\<rparr>) proto_begin (map input_of example_history)"
    using client_refines_protocol [OF example_converts example_client_well_built s(1)] s(2) by simp
  then have "shown (abs_life s) = [Subscribes, CallsConnectHook, ReleasesStart, GivesUp 1, Cancels]"
    by (simp add: example_history_def proceed_def proto_begin_def proto_start_def)
  with s show ?thesis by (auto simp: abs_life_def)
qed

end
