(* ===== verification/Sessions.thy ===== *)
theory Sessions
  imports Lifecycle
begin

text \<open>
  \<open>Start\<close> and \<open>Stop\<close> called from any number of goroutines (src/client/client.go). \<open>Lifecycle\<close> follows
  the one run of one \<open>Start\<close>; here each call is a thread that takes its steps one critical
  section at a time, so that the guard of \<open>Start\<close> and its last store are apart, and so are the
  reads of \<open>Stop\<close>, its disconnect, and what it defers. Every \<open>Start\<close> that passes the guard makes a
  run of its own, with its own router, limiter and \<open>startReady\<close>; the callbacks of all runs work
  on the one client. What the callers and autopaho do outside the client are steps too: the
  context of a caller ends, and a connection manager ends; the \<open>select\<close> of \<open>Start\<close> sees both. A whole
  callback is one step; the states between its critical sections are not modelled.
\<close>

section \<open>Threads\<close>

text \<open>
  A call of \<open>Start\<close> has entered, has passed the guard, waits in the \<open>select\<close> for the run it has
  made, or has returned. A call of \<open>Stop\<close> has entered, holds the manager and the cancellation
  it has read, has disconnected, has cleared the flag, or has returned. A cancellation
  function is known by the number of the run it cancels.
\<close>

datatype ('c, 'e) start_pc =
    StartEntered 'c
  | StartPassed 'c
  | StartWaiting nat
  | StartReturned "nat option" "'e start_error option"

datatype ('c, 'e) stop_pc =
    StopEntered 'c
  | StopHolds 'c "('c, 'e) manager" "nat option"
  | StopDisconnected "nat option" "'e option"
  | StopCleared "nat option" "'e option"
  | StopReturned "'e option"

text \<open>A callback of one run. Each is one step: autopaho calls those of a manager one at a time.\<close>

datatype ('c, 'e) callback =
    Connected "('c, 'e) manager"
  | Disconnected
  | Refused 'e
  | Received packet

text \<open>
  \<open>ss_owner\<close> is the run whose cancellation is in the field \<open>stopRun\<close> of the client. The callbacks
  that have run are recorded, the contexts that have ended with their errors, and the runs
  whose managers have.
\<close>

record ('c, 'm, 'e) session =
  ss_client :: "('c, 'm, 'e) client"
  ss_owner :: "nat option"
  ss_runs :: "('c \<times> ('c, 'm, 'e) run) list"
  ss_starts :: "('c, 'e) start_pc list"
  ss_stops :: "('c, 'e) stop_pc list"
  ss_log :: "(nat option \<times> ('c, 'm, 'e) client_effect) list"
  ss_calls :: "(nat \<times> ('c, 'e) callback) list"
  ss_gone :: "('c \<times> 'e) list"
  ss_ended :: "nat list"

text \<open>The error of the context that \<open>Start\<close> was given for a run, once that has ended.\<close>

definition caller_error :: "('c, 'm, 'e) session \<Rightarrow> nat \<Rightarrow> 'e option" where
  "caller_error s k = map_of (ss_gone s) (fst (ss_runs s ! k))"

text \<open>A case of the \<open>select\<close> of \<open>Start\<close> is ready for the run it waits for.\<close>

fun ready :: "('c, 'm, 'e) session \<Rightarrow> nat \<Rightarrow> 'e selected \<Rightarrow> bool" where
  "ready s k StartReady \<longleftrightarrow> r_readyClosed (snd (ss_runs s ! k))"
| "ready s k (ContextDone e) \<longleftrightarrow> caller_error s k = Some e"
| "ready s k ManagerDone \<longleftrightarrow> k \<in> set (ss_ended s)"

definition cancelled :: "('c, 'm, 'e) session \<Rightarrow> nat \<Rightarrow> bool" where
  "cancelled s k \<longleftrightarrow> (Some k, CancelRun) \<in> set (ss_log s)"

definition logged ::
  "('c, 'm, 'e) session \<Rightarrow> nat option \<Rightarrow> ('c, 'm, 'e) client_effect list \<Rightarrow> ('c, 'm, 'e) session" where
  "logged s k fs = s\<lparr>ss_log := ss_log s @ map (Pair k) fs\<rparr>"

fun run_callback ::
  "'c runtime \<Rightarrow> (packet \<Rightarrow> publish outcome) \<Rightarrow> 'c \<Rightarrow> ('c, 'm, 'e) client \<Rightarrow> ('c, 'm, 'e) run
    \<Rightarrow> ('c, 'e) callback \<Rightarrow> ('c, 'm, 'e, ('c, 'm, 'e) client \<times> ('c, 'm, 'e) run) client_comp" where
  "run_callback rt fp ctx c r (Connected cm) = OnConnectionUp c r ctx cm"
| "run_callback rt fp ctx c r Disconnected =
     seq (OnConnectionDown c r ctx) (\<lambda>(_, c, r). ret (c, r))"
| "run_callback rt fp ctx c r (Refused e) = seq (OnConnectError c r e) (\<lambda>r. ret (c, r))"
| "run_callback rt fp ctx c r (Received pb) = seq (routePacket rt fp r pb) (\<lambda>r. ret (c, r))"

text \<open>One step of a thread that is in \<open>Stop\<close>: the fields are read in one critical section.\<close>

fun stop_turn ::
  "('c, 'm, 'e) session \<Rightarrow> ('c, 'e) stop_pc \<Rightarrow> ('c, 'm, 'e) session \<times> ('c, 'e) stop_pc" where
  "stop_turn s (StopEntered x) =
     (s, case c_cm (ss_client s) of
           None \<Rightarrow> StopCleared (ss_owner s) None
         | Some cm \<Rightarrow> StopHolds x cm (ss_owner s))"
| "stop_turn s (StopHolds x cm k) =
     (logged s k [DisconnectCall x], StopDisconnected k (mgr_Disconnect cm x))"
| "stop_turn s (StopDisconnected k err) =
     (s\<lparr>ss_client := setConnected (ss_client s) False\<rparr>, StopCleared k err)"
| "stop_turn s (StopCleared k err) =
     (if k = None then s else logged s k [CancelRun], StopReturned err)"
| "stop_turn s (StopReturned err) = (s, StopReturned err)"

fun returned :: "('c, 'e) start_pc \<Rightarrow> bool" where
  "returned (StartReturned k err) = True"
| "returned _ = False"

fun stop_returned :: "('c, 'e) stop_pc \<Rightarrow> bool" where
  "stop_returned (StopReturned err) = True"
| "stop_returned _ = False"

text \<open>
  The steps. Where \<open>alone\<close> holds, nobody calls \<open>Start\<close> before an earlier call of it has returned.
\<close>

inductive session_step ::
  "'c runtime \<Rightarrow> (packet \<Rightarrow> publish outcome) \<Rightarrow> bool \<Rightarrow> ('c, 'm, 'e) session \<Rightarrow> ('c, 'm, 'e) session \<Rightarrow> bool"
  for rt :: "'c runtime" and fp :: "packet \<Rightarrow> publish outcome" and alone :: bool where
  StartCall: "(alone \<longrightarrow> list_all returned (ss_starts s)) \<Longrightarrow>
     session_step rt fp alone s (s\<lparr>ss_starts := ss_starts s @ [StartEntered ctx]\<rparr>)"
| Guard: "i < length (ss_starts s) \<Longrightarrow> ss_starts s ! i = StartEntered ctx \<Longrightarrow>
     session_step rt fp alone s (s\<lparr>ss_starts := (ss_starts s)[i :=
       case startGuard (ss_client s) of
         None \<Rightarrow> StartPassed ctx | Some e \<Rightarrow> StartReturned None (Some e)]\<rparr>)"
| Create: "i < length (ss_starts s) \<Longrightarrow> ss_starts s ! i = StartPassed ctx \<Longrightarrow>
     createRun rt (ss_client s) ctx refused = (fs, Ret (Inr r)) \<Longrightarrow>
     session_step rt fp alone s ((logged s None fs)\<lparr>ss_runs := ss_runs s @ [(ctx, r)],
       ss_starts := (ss_starts s)[i := StartWaiting (length (ss_runs s))]\<rparr>)"
| CreateFails: "i < length (ss_starts s) \<Longrightarrow> ss_starts s ! i = StartPassed ctx \<Longrightarrow>
     createRun rt (ss_client s) ctx refused = (fs, Ret (Inl e)) \<Longrightarrow>
     session_step rt fp alone s ((logged s None fs)\<lparr>
       ss_starts := (ss_starts s)[i := StartReturned None (Some e)]\<rparr>)"
| Select: "i < length (ss_starts s) \<Longrightarrow> ss_starts s ! i = StartWaiting k \<Longrightarrow>
     ready s k sel \<Longrightarrow> finishStart (ss_client s) cm sel = (fs, Ret (err, c)) \<Longrightarrow>
     session_step rt fp alone s ((logged s (Some k) fs)\<lparr>ss_client := c,
       ss_owner := (if err = None then Some k else ss_owner s),
       ss_starts := (ss_starts s)[i := StartReturned (Some k) err]\<rparr>)"
| StopCall: "session_step rt fp alone s (s\<lparr>ss_stops := ss_stops s @ [StopEntered x]\<rparr>)"
| StopTurn: "j < length (ss_stops s) \<Longrightarrow> \<not> stop_returned (ss_stops s ! j) \<Longrightarrow>
     stop_turn s (ss_stops s ! j) = (s', pc) \<Longrightarrow>
     session_step rt fp alone s (s'\<lparr>ss_stops := (ss_stops s)[j := pc]\<rparr>)"
| Callback: "k < length (ss_runs s) \<Longrightarrow> ss_runs s ! k = (ctx, r) \<Longrightarrow>
     run_callback rt fp ctx (ss_client s) r cb = (fs, Ret (c, r')) \<Longrightarrow>
     session_step rt fp alone s ((logged s (Some k) fs)\<lparr>ss_client := c,
       ss_runs := (ss_runs s)[k := (ctx, r')], ss_calls := ss_calls s @ [(k, cb)]\<rparr>)"
| ContextEnds: "session_step rt fp alone s (s\<lparr>ss_gone := ss_gone s @ [(x, e)]\<rparr>)"
| ManagerEnds: "k < length (ss_runs s) \<Longrightarrow>
     session_step rt fp alone s (s\<lparr>ss_ended := ss_ended s @ [k]\<rparr>)"

definition begin_session :: "('c, 'm, 'e) client \<Rightarrow> ('c, 'm, 'e) session" where
  "begin_session c = \<lparr>ss_client = c, ss_owner = None, ss_runs = [], ss_starts = [], ss_stops = [],
     ss_log = [], ss_calls = [], ss_gone = [], ss_ended = []\<rparr>"

section \<open>What a callback leaves as it is\<close>

text \<open>A run that \<open>Start\<close> of this client has made, whatever its callbacks have done since.\<close>

definition run_ok :: "'c runtime \<Rightarrow> ('c, 'm, 'e) client \<Rightarrow> 'c \<times> ('c, 'm, 'e) run \<Rightarrow> bool" where
  "run_ok rt c0 = (\<lambda>(ctx, r). router_ok rt c0 ctx (r_router r)
     \<and> (r_readyClosed r \<longleftrightarrow> \<not> r_firstConn r)
     \<and> (\<exists>l. r_limiter r = Some l \<and> lim_logger l = c_logger c0
          \<and> lim_max l = MaxReconnectAttempts (c_cfg c0)))"

definition same_hold :: "('c, 'm, 'e) client \<Rightarrow> ('c, 'm, 'e) client \<Rightarrow> bool" where
  "same_hold c c' \<longleftrightarrow> c_cm c' = c_cm c \<and> c_stopRun c' = c_stopRun c"

lemma limiter_step_kept:
  "lim_logger l = Some lg \<Longrightarrow> \<exists>fs l'. limiter_step (Some l) a = (fs, Ret (Some l'))
     \<and> lim_logger l' = Some lg \<and> lim_max l' = lim_max l \<and> (lim_max l \<le>s 0 \<longrightarrow> fs = [])"
  by (cases a) (simp_all add: limiter_connected_def limiter_failed_def Let_def ret_def)

lemma deliveries_keep_run: "CancelRun \<notin> set (deliveries rt c ctx pb t)"
  by (rule deliveries_only [OF deliveries_are_deliveries, THEN conjunct2, THEN conjunct2, THEN conjunct2])

lemma run_callback_ok:
  assumes "converts fp" "well_built c0" "same_setup c0 c" "run_ok rt c0 (ctx, r)"
  shows "\<exists>fs c' r'. run_callback rt fp ctx c r cb = (fs, Ret (c', r')) \<and> same_setup c0 c'
    \<and> same_hold c c' \<and> run_ok rt c0 (ctx, r')
    \<and> (MaxReconnectAttempts (c_cfg c0) \<le>s 0 \<longrightarrow> CancelRun \<notin> set fs)"
proof -
  obtain lg where lg: "c_logger c0 = Some lg" "c_logger c = Some lg"
    using assms(2,3) by (auto simp: well_built_def same_setup_def)
  obtain l where l: "r_limiter r = Some l" "lim_logger l = Some lg"
    "lim_max l = MaxReconnectAttempts (c_cfg c0)"
    using assms(4) lg by (auto simp: run_ok_def)
  note defs = run_ok_def same_setup_def same_hold_def
  show ?thesis
  proof (cases cb)
    case (Connected cm)
    obtain l' where "limiter_connected (Some l) = Some l'" "lim_logger l' = Some lg" "lim_max l' = lim_max l"
      using limiter_step_kept [OF l(2), of Up] by (auto simp: ret_def)
    then show ?thesis
      using Connected OnConnectionUp_eq [of c r ctx cm] assms(3,4) lg l
      by (auto simp: defs up_effects_simps)
  next
    case Disconnected
    then show ?thesis
      using assms(3,4) by (auto simp: OnConnectionDown_eq defs split: option.split)
  next
    case (Refused e)
    obtain fs l' where "limiter_failed (Some l) = (fs, Ret (Some l'))" "lim_logger l' = Some lg"
      "lim_max l' = lim_max l" "lim_max l \<le>s 0 \<longrightarrow> fs = []"
      using limiter_step_kept [OF l(2), of Fail] by auto
    with Refused show ?thesis
      using assms(3,4) lg l by (auto simp: OnConnectError_def defs)
  next
    case (Received pb)
    have "router_ok rt c0 ctx (r_router r)"
      using assms(4) by (simp add: run_ok_def)
    note route = client_Route [OF assms(1,2) this, of pb]
    with Received show ?thesis
      using route assms(3,4) by (auto simp: routePacket_def defs deliveries_keep_run)
  qed
qed

section \<open>The invariant\<close>

lemma set_update_keep: "x \<in> set xs \<Longrightarrow> x \<noteq> xs ! i \<Longrightarrow> x \<in> set (xs[i := y])"
  by (metis in_set_conv_nth length_list_update nth_list_update_neq)

lemma set_update_new: "i < length xs \<Longrightarrow> y \<in> set (xs[i := y])"
  by (simp add: set_update_memI)

lemma set_updateD: "x \<in> set (xs[i := y]) \<Longrightarrow> x = y \<or> x \<in> set xs"
  using set_update_subset_insert [of xs i y] by blast

text \<open>Every run is on some hand: a \<open>Start\<close> waits for it, or has handed it over, or it is cancelled.\<close>

definition on_hand :: "('c, 'm, 'e) session \<Rightarrow> nat \<Rightarrow> bool" where
  "on_hand s k \<longleftrightarrow> StartWaiting k \<in> set (ss_starts s)
     \<or> StartReturned (Some k) None \<in> set (ss_starts s) \<or> cancelled s k"

definition hold_inv :: "'c runtime \<Rightarrow> ('c, 'm, 'e) client \<Rightarrow> ('c, 'm, 'e) session \<Rightarrow> bool" where
  "hold_inv rt c0 s \<longleftrightarrow> same_setup c0 (ss_client s) \<and> (\<forall>p \<in> set (ss_runs s). run_ok rt c0 p)
     \<and> (c_cm (ss_client s) \<noteq> None \<longleftrightarrow> ss_owner s \<noteq> None)
     \<and> (c_stopRun (ss_client s) \<longleftrightarrow> ss_owner s \<noteq> None)"

definition thread_inv :: "('c, 'm, 'e) session \<Rightarrow> bool" where
  "thread_inv s \<longleftrightarrow> (\<forall>k < length (ss_runs s). on_hand s k)
     \<and> (\<forall>k. StartWaiting k \<in> set (ss_starts s) \<longrightarrow> k < length (ss_runs s))
     \<and> (\<forall>k. ss_owner s = Some k \<longrightarrow> k < length (ss_runs s))"

text \<open>With one \<open>Start\<close> at a time, only the last call can be under way, and what it does depends on
  whether the client holds a run.\<close>

fun consistent :: "nat option \<Rightarrow> ('c, 'e) start_pc \<Rightarrow> bool" where
  "consistent own (StartPassed ctx) \<longleftrightarrow> own = None"
| "consistent own (StartWaiting k) \<longleftrightarrow> own = None"
| "consistent own (StartReturned (Some k) None) \<longleftrightarrow> own = Some k"
| "consistent own _ \<longleftrightarrow> True"

definition solo_inv :: "('c, 'm, 'e) session \<Rightarrow> bool" where
  "solo_inv s \<longleftrightarrow> list_all returned (butlast (ss_starts s))
     \<and> list_all (consistent (ss_owner s)) (ss_starts s)"

definition session_inv :: "'c runtime \<Rightarrow> bool \<Rightarrow> ('c, 'm, 'e) client \<Rightarrow> ('c, 'm, 'e) session \<Rightarrow> bool" where
  "session_inv rt alone c0 s \<longleftrightarrow> hold_inv rt c0 s \<and> thread_inv s \<and> (alone \<longrightarrow> solo_inv s)"

lemma logged_simps [simp]:
  "ss_client (logged s k fs) = ss_client s" "ss_owner (logged s k fs) = ss_owner s"
  "ss_runs (logged s k fs) = ss_runs s" "ss_starts (logged s k fs) = ss_starts s"
  "ss_stops (logged s k fs) = ss_stops s" "ss_log (logged s k fs) = ss_log s @ map (Pair k) fs"
  "ss_calls (logged s k fs) = ss_calls s" "ss_gone (logged s k fs) = ss_gone s"
  "ss_ended (logged s k fs) = ss_ended s"
  by (simp_all add: logged_def)

lemma cancelled_mono:
  "set (ss_log s) \<subseteq> set (ss_log t) \<Longrightarrow> cancelled s k \<Longrightarrow> cancelled t k"
  by (auto simp: cancelled_def)

lemma begin_session_inv: "well_built c0 \<Longrightarrow> session_inv rt alone c0 (begin_session c0)"
  by (simp add: session_inv_def hold_inv_def thread_inv_def solo_inv_def begin_session_def well_built_def
      same_setup_def)

text \<open>A change that leaves the threads in \<open>Start\<close>, and what the client holds, as they are.\<close>

lemma session_inv_frame:
  assumes "session_inv rt alone c0 s" "ss_starts t = ss_starts s" "ss_owner t = ss_owner s"
    and "length (ss_runs t) = length (ss_runs s)" "\<forall>p \<in> set (ss_runs t). run_ok rt c0 p"
    and "same_setup c0 (ss_client t)" "same_hold (ss_client s) (ss_client t)"
    and "set (ss_log s) \<subseteq> set (ss_log t)"
  shows "session_inv rt alone c0 t"
proof -
  have "thread_inv t"
    using assms(1-4) cancelled_mono [OF assms(8)]
    by (auto simp: session_inv_def thread_inv_def on_hand_def)
  then show ?thesis
    using assms by (simp add: session_inv_def hold_inv_def solo_inv_def same_hold_def)
qed

text \<open>A step of the thread \<open>i\<close> in \<open>Start\<close>.\<close>

lemma butlast_update_last:
  "\<not> returned (xs ! i) \<Longrightarrow> i < length xs \<Longrightarrow> list_all returned (butlast xs) \<Longrightarrow>
     \<exists>ys. xs = ys @ [xs ! i] \<and> list_all returned ys \<and> (\<forall>y. xs[i := y] = ys @ [y])"
proof (cases xs rule: rev_cases)
  case (snoc ys y)
  assume pending: "\<not> returned (xs ! i)" "i < length xs" "list_all returned (butlast xs)"
  with snoc have "\<not> i < length ys" by (auto simp: nth_append list_all_length)
  with snoc pending(2) have "i = length ys" by simp
  with snoc pending(3) show ?thesis by simp
qed simp

lemma consistent_None: "returned pc \<Longrightarrow> consistent None pc \<Longrightarrow> consistent own pc"
  by (induction own pc rule: consistent.induct) simp_all

lemma solo_inv_update:
  assumes "solo_inv s" "i < length (ss_starts s)" "\<not> returned (ss_starts s ! i)"
    and "ss_starts t = (ss_starts s)[i := pc]" "consistent (ss_owner t) pc"
    and "ss_owner t = ss_owner s \<or> ss_owner s = None"
  shows "solo_inv t"
proof -
  obtain ys where ys: "ss_starts s = ys @ [ss_starts s ! i]" "list_all returned ys"
    "\<forall>y. (ss_starts s)[i := y] = ys @ [y]"
    using butlast_update_last [OF assms(3,2)] assms(1) by (auto simp: solo_inv_def)
  have old: "list_all (consistent (ss_owner s)) ys"
    using assms(1) ys(1) by (metis list_all_append solo_inv_def)
  have "list_all (consistent (ss_owner t)) ys"
  proof (cases "ss_owner t = ss_owner s")
    case False
    then have "ss_owner s = None" using assms(6) by blast
    with old ys(2) show ?thesis
      unfolding list_all_iff by (metis consistent_None)
  qed (simp add: old)
  then show ?thesis
    using ys(2,3) assms(4,5) by (simp add: solo_inv_def)
qed

lemma thread_inv_update:
  assumes "thread_inv s" "i < length (ss_starts s)" "ss_starts t = (ss_starts s)[i := pc]"
    and "set (ss_log s) \<subseteq> set (ss_log t)" "length (ss_runs s) \<le> length (ss_runs t)"
    and "\<And>k. length (ss_runs s) \<le> k \<Longrightarrow> k < length (ss_runs t) \<Longrightarrow> pc = StartWaiting k"
    and "\<And>k. pc = StartWaiting k \<Longrightarrow> k < length (ss_runs t)"
    and "case ss_starts s ! i of
        StartWaiting k \<Rightarrow> pc = StartReturned (Some k) None \<or> cancelled t k
      | StartReturned k err \<Rightarrow> False | _ \<Rightarrow> True"
    and "ss_owner t = ss_owner s \<or> (\<exists>k. ss_owner t = Some k \<and> ss_starts s ! i = StartWaiting k)"
  shows "thread_inv t"
proof -
  note inv = assms(1) [unfolded thread_inv_def]
  have "on_hand t k" if "k < length (ss_runs t)" for k
  proof (cases "k < length (ss_runs s)")
    case True
    then consider "StartWaiting k \<in> set (ss_starts s)" | "StartReturned (Some k) None \<in> set (ss_starts s)"
      | "cancelled s k"
      using inv by (auto simp: on_hand_def)
    then show ?thesis
    proof cases
      case 1
      show ?thesis
      proof (cases "StartWaiting k = ss_starts s ! i")
        case True
        then have "pc = StartReturned (Some k) None \<or> cancelled t k"
          using assms(8) by (simp flip: True)
        moreover have "pc \<in> set (ss_starts t)"
          unfolding assms(3) by (rule set_update_new [OF assms(2)])
        ultimately show ?thesis unfolding on_hand_def by blast
      qed (use set_update_keep [OF 1] in \<open>simp add: on_hand_def assms(3)\<close>)
    next
      case 2
      have "StartReturned (Some k) None \<noteq> ss_starts s ! i"
        using assms(8) by (cases "ss_starts s ! i") auto
      then show ?thesis using set_update_keep [OF 2] by (simp add: on_hand_def assms(3))
    next
      case 3
      then show ?thesis using cancelled_mono [OF assms(4)] by (simp add: on_hand_def)
    qed
  next
    case False
    then have "pc = StartWaiting k" using that assms(6) by simp
    then show ?thesis
      using set_update_new [OF assms(2)] by (simp add: on_hand_def assms(3))
  qed
  moreover have "k < length (ss_runs t)" if "StartWaiting k \<in> set (ss_starts t)" for k
    using that set_updateD [of "StartWaiting k" "ss_starts s" i pc] inv assms(3,5) assms(7) [of k]
    by (auto dest: less_le_trans)
  moreover have "k < length (ss_runs t)" if "ss_owner t = Some k" for k
    using that inv assms(2,5,9) by (metis less_le_trans nth_mem option.inject)
  ultimately show ?thesis by (simp add: thread_inv_def)
qed

text \<open>So a step of \<open>Start\<close> keeps the invariant if what the client holds stays consistent.\<close>

lemma session_inv_update:
  assumes "session_inv rt alone c0 s" "hold_inv rt c0 t" "thread_inv t"
    and "i < length (ss_starts s)" "\<not> returned (ss_starts s ! i)"
    and "ss_starts t = (ss_starts s)[i := pc]" "alone \<Longrightarrow> solo_inv s \<Longrightarrow> consistent (ss_owner t) pc"
    and "alone \<Longrightarrow> solo_inv s \<Longrightarrow> ss_owner t = ss_owner s \<or> ss_owner s = None"
  shows "session_inv rt alone c0 t"
  using assms(1-3) solo_inv_update [OF _ assms(4,5,6) assms(7) assms(8)]
  by (simp add: session_inv_def)

lemma stop_turn_frame:
  assumes "stop_turn s pc = (s', pc')"
  shows "ss_starts s' = ss_starts s \<and> ss_owner s' = ss_owner s \<and> ss_runs s' = ss_runs s
    \<and> ss_stops s' = ss_stops s \<and> set (ss_log s) \<subseteq> set (ss_log s')
    \<and> ss_calls s' = ss_calls s \<and> ss_gone s' = ss_gone s \<and> ss_ended s' = ss_ended s
    \<and> same_hold (ss_client s) (ss_client s')
    \<and> (same_setup c0 (ss_client s) \<longrightarrow> same_setup c0 (ss_client s'))"
  using assms
  by (cases pc) (auto simp: same_hold_def same_setup_def setConnected_def split: if_splits)

lemma inv_Guard:
  assumes "session_inv rt alone c0 s" "i < length (ss_starts s)" "ss_starts s ! i = StartEntered ctx"
  shows "session_inv rt alone c0 (s\<lparr>ss_starts := (ss_starts s)[i :=
    case startGuard (ss_client s) of
      None \<Rightarrow> StartPassed ctx | Some e \<Rightarrow> StartReturned None (Some e)]\<rparr>)" (is "_ (?t)")
proof -
  have hold: "hold_inv rt c0 s" and thr: "thread_inv s"
    using assms(1) by (simp_all add: session_inv_def)
  show ?thesis
  proof (cases "ss_owner s")
    case None
    with hold have g: "startGuard (ss_client s) = None"
      by (simp add: hold_inv_def startGuard_def)
    show ?thesis
      by (intro session_inv_update [OF assms(1) _ thread_inv_update [OF thr assms(2)] assms(2)])
         (use hold assms(3) None in \<open>auto simp: g hold_inv_def\<close>)
  next
    case (Some k)
    with hold have g: "startGuard (ss_client s) = Some AlreadyStarted"
      by (simp add: hold_inv_def startGuard_def)
    show ?thesis
      by (intro session_inv_update [OF assms(1) _ thread_inv_update [OF thr assms(2)] assms(2)])
         (use hold assms(3) Some in \<open>auto simp: g hold_inv_def\<close>)
  qed
qed

text \<open>The run that is created is as \<open>Start\<close> leaves it, and the effects are those of no run yet.\<close>

lemma createRun_Inr:
  assumes "createRun rt c ctx refused = (fs, Ret (Inr r))" "same_setup c0 c"
  shows "run_ok rt c0 (ctx, r)"
proof -
  have "r = \<lparr>r_router = buildRouter rt c ctx,
      r_limiter = Some (new_limiter (MaxReconnectAttempts (c_cfg c)) (c_logger c)),
      r_readyClosed = False, r_firstConn = True\<rparr>"
    using assms(1) by (auto simp: createRun_def Let_def ret_def split: option.splits)
  then show ?thesis
    using assms(2)
    by (simp add: run_ok_def same_setup_def router_ok_def buildRouter_eq client_entries_def
        newSubscriberRouter_def well_formed_def new_limiter_def)
qed

lemma solo_waiting:
  "solo_inv s \<Longrightarrow> i < length (ss_starts s) \<Longrightarrow> consistent (ss_owner s) (ss_starts s ! i)"
  by (simp add: solo_inv_def list_all_length)

lemma inv_Create:
  assumes "session_inv rt alone c0 s" "i < length (ss_starts s)" "ss_starts s ! i = StartPassed ctx"
    and "createRun rt (ss_client s) ctx refused = (fs, Ret (Inr r))"
  shows "session_inv rt alone c0 ((logged s None fs)\<lparr>ss_runs := ss_runs s @ [(ctx, r)],
    ss_starts := (ss_starts s)[i := StartWaiting (length (ss_runs s))]\<rparr>)"
proof -
  have hold: "hold_inv rt c0 s" and thr: "thread_inv s"
    using assms(1) by (simp_all add: session_inv_def)
  then have "run_ok rt c0 (ctx, r)"
    using createRun_Inr [OF assms(4)] by (simp add: hold_inv_def)
  then show ?thesis
    by (intro session_inv_update [OF assms(1) _ thread_inv_update [OF thr assms(2)] assms(2)])
       (use hold assms(3) solo_waiting [OF _ assms(2)] in \<open>auto simp: hold_inv_def\<close>)
qed

lemma inv_CreateFails:
  assumes "session_inv rt alone c0 s" "i < length (ss_starts s)" "ss_starts s ! i = StartPassed ctx"
  shows "session_inv rt alone c0 ((logged s None fs)\<lparr>
    ss_starts := (ss_starts s)[i := StartReturned None (Some e)]\<rparr>)"
proof -
  have hold: "hold_inv rt c0 s" and thr: "thread_inv s"
    using assms(1) by (simp_all add: session_inv_def)
  show ?thesis
    by (intro session_inv_update [OF assms(1) _ thread_inv_update [OF thr assms(2)] assms(2)])
       (use hold assms(3) in \<open>auto simp: hold_inv_def\<close>)
qed

lemma finishStart_cases:
  assumes "finishStart c cm sel = (fs, Ret (err, c'))"
  shows "err = None \<and> fs = [] \<and> c' = c\<lparr>c_cm := Some cm, c_stopRun := True\<rparr>
    \<or> err \<noteq> None \<and> fs = [CancelRun] \<and> c' = c"
  using assms by (cases sel) (auto simp: ret_def)

lemma inv_Select:
  assumes "session_inv rt alone c0 s" "i < length (ss_starts s)" "ss_starts s ! i = StartWaiting k"
    and "finishStart (ss_client s) cm sel = (fs, Ret (err, c))"
  shows "session_inv rt alone c0 ((logged s (Some k) fs)\<lparr>ss_client := c,
    ss_owner := (if err = None then Some k else ss_owner s),
    ss_starts := (ss_starts s)[i := StartReturned (Some k) err]\<rparr>)"
proof -
  have hold: "hold_inv rt c0 s" and thr: "thread_inv s"
    using assms(1) by (simp_all add: session_inv_def)
  have own: "solo_inv s \<Longrightarrow> ss_owner s = None"
    using solo_waiting [OF _ assms(2)] assms(3) by simp
  from finishStart_cases [OF assms(4)] show ?thesis
  proof (elim disjE conjE)
    assume ok: "err = None" "fs = []" "c = (ss_client s)\<lparr>c_cm := Some cm, c_stopRun := True\<rparr>"
    show ?thesis
      by (intro session_inv_update [OF assms(1) _ thread_inv_update [OF thr assms(2)] assms(2)])
         (use hold own assms(3) in \<open>auto simp: hold_inv_def ok same_setup_def\<close>)
  next
    assume failed: "err \<noteq> None" "fs = [CancelRun]" "c = ss_client s"
    then obtain e where "err = Some e" by blast
    then show ?thesis
      by (intro session_inv_update [OF assms(1) _ thread_inv_update [OF thr assms(2)] assms(2)])
         (use hold assms(3) failed in \<open>auto simp: hold_inv_def cancelled_def\<close>)
  qed
qed

lemma inv_StartCall:
  assumes "session_inv rt alone c0 s" "alone \<longrightarrow> list_all returned (ss_starts s)"
  shows "session_inv rt alone c0 (s\<lparr>ss_starts := ss_starts s @ [StartEntered ctx]\<rparr>)"
proof -
  let ?t = "s\<lparr>ss_starts := ss_starts s @ [StartEntered ctx]\<rparr>"
  have "on_hand ?t k \<longleftrightarrow> on_hand s k" for k
    by (simp add: on_hand_def cancelled_def)
  then have "thread_inv ?t"
    using assms(1) by (simp add: session_inv_def thread_inv_def)
  then show ?thesis
    using assms by (auto simp: session_inv_def hold_inv_def solo_inv_def)
qed

lemma session_inv_step:
  assumes "converts fp" "well_built c0" "session_inv rt alone c0 s" "session_step rt fp alone s t"
  shows "session_inv rt alone c0 t"
  using assms(4)
proof cases
  case (StartCall ctx)
  then show ?thesis using inv_StartCall [OF assms(3)] by simp
next
  case (StopCall x)
  have "same_hold (ss_client s) (ss_client s)" by (simp add: same_hold_def)
  with StopCall show ?thesis
    by (intro session_inv_frame [OF assms(3)]) (use assms(3) in \<open>simp_all add: session_inv_def hold_inv_def\<close>)
next
  case (StopTurn j s' pc)
  from stop_turn_frame [OF StopTurn(4), of c0] show ?thesis
    by (intro session_inv_frame [OF assms(3)])
       (use assms(3) StopTurn(1) in \<open>simp_all add: session_inv_def hold_inv_def same_hold_def\<close>)
next
  case (Callback k ctx r cb fs c r')
  have "same_setup c0 (ss_client s)" "run_ok rt c0 (ctx, r)"
    using assms(3) Callback(2,3) nth_mem [of k "ss_runs s"]
    by (auto simp: session_inv_def hold_inv_def)
  from run_callback_ok [OF assms(1,2) this, of cb] Callback(4)
  have "same_setup c0 c" "same_hold (ss_client s) c" "run_ok rt c0 (ctx, r')" by auto
  moreover have "\<forall>p \<in> set ((ss_runs s)[k := (ctx, r')]). run_ok rt c0 p"
    using assms(3) calculation(3) set_update_subset_insert [of "ss_runs s" k "(ctx, r')"]
    by (auto simp: session_inv_def hold_inv_def)
  ultimately show ?thesis
    using Callback(1) by (intro session_inv_frame [OF assms(3)]) simp_all
next
  case (ContextEnds x e)
  then show ?thesis
    by (intro session_inv_frame [OF assms(3)])
       (use assms(3) in \<open>simp_all add: session_inv_def hold_inv_def same_hold_def\<close>)
next
  case (ManagerEnds k)
  then show ?thesis
    by (intro session_inv_frame [OF assms(3)])
       (use assms(3) in \<open>simp_all add: session_inv_def hold_inv_def same_hold_def\<close>)
qed (use inv_Guard [OF assms(3)] inv_Create [OF assms(3)] inv_CreateFails [OF assms(3)]
      inv_Select [OF assms(3)] in blast)+

interpretation sessions: stepped_invariant
  "begin_session c0" "session_step rt fp alone"
  "\<lambda>s. converts fp \<and> well_built c0 \<longrightarrow> session_inv rt alone c0 s"
  for c0 rt fp alone
  by unfold_locales (auto simp: begin_session_inv intro: session_inv_step)

lemma reachable_session_inv:
  "converts fp \<Longrightarrow> well_built c0 \<Longrightarrow> (session_step rt fp alone)\<^sup>*\<^sup>* (begin_session c0) s \<Longrightarrow>
     session_inv rt alone c0 s"
  using sessions.reachable_inv [of rt fp alone c0 s] by simp

section \<open>A call of Stop that nothing interrupts\<close>

text \<open>The steps of a thread in \<open>Stop\<close>, one after the other, are the operation \<open>Stop\<close>.\<close>

definition stop_turns ::
  "nat \<Rightarrow> ('c, 'm, 'e) session \<times> ('c, 'e) stop_pc \<Rightarrow> ('c, 'm, 'e) session \<times> ('c, 'e) stop_pc" where
  "stop_turns n = (\<lambda>(s, pc). stop_turn s pc) ^^ n"

lemma stop_turns_Stop:
  assumes "hold_inv rt c0 s" "Stop (ss_client s) x = (fs, Ret (err, c))"
  shows "stop_turns 4 (s, StopEntered x) =
    ((logged s (ss_owner s) fs)\<lparr>ss_client := c\<rparr>, StopReturned err)"
  using assms
  by (cases "ss_owner s"; cases "c_cm (ss_client s)")
     (auto simp: stop_turns_def numeral_eq_Suc Stop_def hold_inv_def logged_def)

lemma stop_turn_stops:
  "stop_turn (s\<lparr>ss_stops := ys\<rparr>) pc = (fst (stop_turn s pc)\<lparr>ss_stops := ys\<rparr>, snd (stop_turn s pc))"
  by (cases pc) (simp_all add: logged_def split: option.split)

lemma stop_thread_runs:
  "(session_step rt fp alone)\<^sup>*\<^sup>* (s\<lparr>ss_stops := ys @ [pc]\<rparr>)
     (fst (stop_turns n (s, pc))\<lparr>ss_stops := ys @ [snd (stop_turns n (s, pc))]\<rparr>)"
proof (induction n arbitrary: s pc)
  case 0
  then show ?case by (simp add: stop_turns_def)
next
  case (Suc n)
  obtain s' pc' where turn: "stop_turn s pc = (s', pc')" by fastforce
  have "(session_step rt fp alone)\<^sup>*\<^sup>* (s\<lparr>ss_stops := ys @ [pc]\<rparr>) (s'\<lparr>ss_stops := ys @ [pc']\<rparr>)"
  proof (cases "stop_returned pc")
    case True
    with turn show ?thesis by (cases pc) auto
  next
    case False
    then show ?thesis
      using session_step.StopTurn [where j = "length ys" and s = "s\<lparr>ss_stops := ys @ [pc]\<rparr>"
          and s' = "s'\<lparr>ss_stops := ys @ [pc]\<rparr>" and pc = pc']
      by (simp add: stop_turn_stops turn r_into_rtranclp)
  qed
  moreover have "stop_turns (Suc n) (s, pc) = stop_turns n (s', pc')"
    by (simp add: stop_turns_def funpow_Suc_right turn del: funpow.simps)
  ultimately show ?case
    using Suc.IH [where s = s' and pc = pc'] by (auto intro: rtranclp_trans)
qed

lemma stop_runs:
  assumes "hold_inv rt c0 s" "Stop (ss_client s) x = (fs, Ret (err, c))"
  shows "(session_step rt fp alone)\<^sup>*\<^sup>* s
    ((logged s (ss_owner s) fs)\<lparr>ss_client := c, ss_stops := ss_stops s @ [StopReturned err]\<rparr>)"
  using session_step.StopCall [where rt = rt and fp = fp and alone = alone and s = s and x = x]
    stop_thread_runs [where rt = rt and fp = fp and alone = alone and s = s and ys = "ss_stops s"
      and pc = "StopEntered x" and n = 4]
  unfolding stop_turns_Stop [OF assms] by (simp add: converse_rtranclp_into_rtranclp)

section \<open>A run that nothing can cancel\<close>

text \<open>
  Nobody waits for the run, the client does not hold it, and no call of \<open>Stop\<close> has read its
  cancellation: with an unlimited number of attempts it stays like that.
\<close>

fun holds :: "('c, 'e) stop_pc \<Rightarrow> nat option" where
  "holds (StopHolds x cm k) = k"
| "holds (StopDisconnected k err) = k"
| "holds (StopCleared k err) = k"
| "holds _ = None"

definition orphan :: "('c, 'm, 'e) session \<Rightarrow> nat \<Rightarrow> bool" where
  "orphan s k \<longleftrightarrow> k < length (ss_runs s) \<and> \<not> cancelled s k \<and> ss_owner s \<noteq> Some k
     \<and> StartWaiting k \<notin> set (ss_starts s) \<and> (\<forall>pc \<in> set (ss_stops s). holds pc \<noteq> Some k)"

lemma orphan_frame:
  assumes "orphan s k" "length (ss_runs s) \<le> length (ss_runs t)" "ss_owner t = ss_owner s"
    and "ss_starts t = ss_starts s" "ss_stops t = ss_stops s"
    and "(Some k, CancelRun) \<in> set (ss_log t) \<longrightarrow> (Some k, CancelRun) \<in> set (ss_log s)"
  shows "orphan t k"
  using assms by (auto simp: orphan_def cancelled_def)

lemma orphan_start:
  assumes "orphan s k" "pc \<noteq> StartWaiting k" "length (ss_runs s) \<le> length (ss_runs t)"
    and "ss_owner t \<noteq> Some k" "ss_starts t = (ss_starts s)[i := pc]" "ss_stops t = ss_stops s"
    and "(Some k, CancelRun) \<in> set (ss_log t) \<longrightarrow> (Some k, CancelRun) \<in> set (ss_log s)"
  shows "orphan t k"
  using assms set_updateD [of "StartWaiting k" "ss_starts s" i pc]
  by (auto simp: orphan_def cancelled_def)

lemma orphan_stop:
  assumes "orphan s k" "j < length (ss_stops s)" "stop_turn s (ss_stops s ! j) = (s', pc)"
  shows "orphan (s'\<lparr>ss_stops := (ss_stops s)[j := pc]\<rparr>) k"
proof -
  have "holds (ss_stops s ! j) \<noteq> Some k" "ss_owner s \<noteq> Some k"
    using assms(1,2) by (simp_all add: orphan_def)
  then have "holds pc \<noteq> Some k"
    and "(Some k, CancelRun) \<in> set (ss_log s') \<longrightarrow> (Some k, CancelRun) \<in> set (ss_log s)"
    using assms(3) by (cases "ss_stops s ! j"; auto split: option.splits if_splits)+
  then show ?thesis
    using assms(1) stop_turn_frame [OF assms(3)] set_update_subset_insert [of "ss_stops s" j pc]
    by (auto simp: orphan_def cancelled_def)
qed

lemma orphan_step:
  assumes "converts fp" "well_built c0" "MaxReconnectAttempts (c_cfg c0) \<le>s 0"
    and "session_inv rt alone c0 s" "orphan s k" "session_step rt fp alone s t"
  shows "orphan t k"
  using assms(6)
proof cases
  case (StartCall ctx)
  then show ?thesis using assms(5) by (simp add: orphan_def cancelled_def)
next
  case (Guard i ctx)
  then show ?thesis
    by (intro orphan_start [OF assms(5), where i = i])
       (use assms(5) in \<open>auto simp: orphan_def split: option.split\<close>)
next
  case (Create i ctx refused fs r)
  then show ?thesis
    by (intro orphan_start [OF assms(5), where i = i]) (use assms(5) in \<open>auto simp: orphan_def\<close>)
next
  case (CreateFails i ctx refused fs e)
  then show ?thesis
    by (intro orphan_start [OF assms(5), where i = i]) (use assms(5) in \<open>auto simp: orphan_def\<close>)
next
  case (Select i j sel cm fs err c)
  then have "j \<noteq> k"
    using assms(5) nth_mem by (fastforce simp: orphan_def)
  with Select show ?thesis
    by (intro orphan_start [OF assms(5), where i = i]) (use assms(5) in \<open>auto simp: orphan_def\<close>)
next
  case (StopCall x)
  then show ?thesis using assms(5) by (auto simp: orphan_def cancelled_def)
next
  case (StopTurn j s' pc)
  then show ?thesis using orphan_stop [OF assms(5)] by simp
next
  case (Callback j ctx r cb fs c r')
  then have "same_setup c0 (ss_client s)" "run_ok rt c0 (ctx, r)"
    using assms(4) nth_mem [of j "ss_runs s"] by (auto simp: session_inv_def hold_inv_def)
  then have "CancelRun \<notin> set fs"
    using run_callback_ok [OF assms(1,2), of "ss_client s" rt ctx r cb] Callback assms(3) by auto
  then show ?thesis
    using Callback by (intro orphan_frame [OF assms(5)]) auto
qed (use assms(5) in \<open>auto simp: orphan_def cancelled_def\<close>)

lemma orphan_forever:
  assumes "converts fp" "well_built c0" "MaxReconnectAttempts (c_cfg c0) \<le>s 0"
    and "session_inv rt alone c0 s" "orphan s k" "(session_step rt fp alone)\<^sup>*\<^sup>* s t"
  shows "\<not> cancelled t k"
proof -
  have "session_inv rt alone c0 t \<and> orphan t k"
    using assms(6) by (induction rule: rtranclp_induct)
      (use assms(4,5) session_inv_step [OF assms(1,2)] orphan_step [OF assms(1-3)] in blast)+
  then show ?thesis by (simp add: orphan_def)
qed

section \<open>Two calls of Start at once\<close>

lemma logged_Nil [simp]: "logged s k [] = s"
  by (simp add: logged_def)

text \<open>The run that a thread creates, and how its first connection and its return go.\<close>

definition new_run :: "'c runtime \<Rightarrow> ('c, 'm, 'e) client \<Rightarrow> 'c \<Rightarrow> ('c, 'm, 'e) run" where
  "new_run rt c ctx = \<lparr>r_router = buildRouter rt c ctx,
     r_limiter = Some (new_limiter (MaxReconnectAttempts (c_cfg c)) (c_logger c)),
     r_readyClosed = False, r_firstConn = True\<rparr>"

lemma createRun_new: "createRun rt c ctx None = ([], Ret (Inr (new_run rt c ctx)))"
  by (simp add: createRun_def new_run_def Let_def ret_def)

text \<open>Both have passed the guard and made a run before either has stored one.\<close>

lemma both_waiting:
  assumes "c_cm c = None"
  shows "(session_step rt fp False)\<^sup>*\<^sup>* (begin_session c)
    ((begin_session c)\<lparr>ss_runs := [(x, new_run rt c x), (x, new_run rt c x)],
       ss_starts := [StartWaiting 0, StartWaiting 1]\<rparr>)"
proof -
  let ?S = "\<lambda>runs pcs. (begin_session c)\<lparr>ss_runs := runs, ss_starts := pcs\<rparr>"
  let ?step = "session_step rt fp False" and ?r = "(x, new_run rt c x)"
  have g: "startGuard c = None" using assms by (simp add: startGuard_def)
  have call: "?step (?S rs pcs) (?S rs (pcs @ [StartEntered x]))" for rs pcs
    using session_step.StartCall [where s = "?S rs pcs" and alone = False and ctx = x] by simp
  have guard: "?step (?S rs pcs) (?S rs (pcs[i := StartPassed x]))"
    if "i < length pcs" "pcs ! i = StartEntered x" for i rs pcs
    using session_step.Guard [where s = "?S rs pcs" and i = i and ctx = x and alone = False] that g
    by (simp add: begin_session_def)
  have create: "?step (?S rs pcs) (?S (rs @ [?r]) (pcs[i := StartWaiting (length rs)]))"
    if "i < length pcs" "pcs ! i = StartPassed x" for i rs pcs
    using session_step.Create [where s = "?S rs pcs" and i = i and alone = False, OF _ _ createRun_new] that
    by (simp add: begin_session_def)
  have "?step\<^sup>*\<^sup>* (?S [] []) (?S [] [StartEntered x, StartEntered x])"
    using call [of "[]" "[]"] call [of "[StartEntered x]" "[]"] by simp
  moreover have "?step\<^sup>*\<^sup>* (?S [] [StartEntered x, StartEntered x]) (?S [] [StartPassed x, StartPassed x])"
    using guard [of 0 "[StartEntered x, StartEntered x]" "[]"]
      guard [of 1 "[StartPassed x, StartEntered x]" "[]"] by simp
  moreover have "?step\<^sup>*\<^sup>* (?S [] [StartPassed x, StartPassed x]) (?S [?r, ?r] [StartWaiting 0, StartWaiting 1])"
    using create [of 0 "[StartPassed x, StartPassed x]" "[]"]
      create [of 1 "[StartWaiting 0, StartPassed x]" "[?r]"] by simp
  ultimately have "?step\<^sup>*\<^sup>* (?S [] []) (?S [?r, ?r] [StartWaiting 0, StartWaiting 1])"
    by (meson rtranclp_trans)
  then show ?thesis by (simp add: begin_session_def)
qed

text \<open>A run whose first connection comes up: its \<open>Start\<close> can then return nil.\<close>

lemma start_returns:
  fixes s :: "('c, 'm, 'e) session" and cm :: "('c, 'e) manager"
  assumes "c_logger (ss_client s) \<noteq> None" "k < length (ss_runs s)" "i < length (ss_starts s)"
    and "ss_runs s ! k = (x, r)" "r_firstConn r" "\<not> r_readyClosed r" "ss_starts s ! i = StartWaiting k"
  shows "\<exists>t r'. (session_step rt fp alone)\<^sup>*\<^sup>* s t
    \<and> ss_starts t = (ss_starts s)[i := StartReturned (Some k) None]
    \<and> ss_runs t = (ss_runs s)[k := (x, r')] \<and> ss_owner t = Some k \<and> ss_stops t = ss_stops s
    \<and> c_logger (ss_client t) = c_logger (ss_client s) \<and> (\<forall>j. cancelled t j = cancelled s j)"
proof -
  have up: "run_callback rt fp x (ss_client s) r (Connected cm) =
      (up_effects (ss_client s) True x cm,
       Ret ((ss_client s)\<lparr>c_connected := True,
              c_publishers := wire_publishers cm (c_publishers (ss_client s))\<rparr>,
            r\<lparr>r_router := resetAliases (r_router r), r_limiter := limiter_connected (r_limiter r),
              r_readyClosed := True, r_firstConn := False\<rparr>))"
    (is "_ = (?fs, Ret (?c, ?r))")
    using OnConnectionUp_eq [OF assms(1), of r x cm] assms(5,6) by simp
  let ?s1 = "(logged s (Some k) ?fs)\<lparr>ss_client := ?c, ss_runs := (ss_runs s)[k := (x, ?r)],
    ss_calls := ss_calls s @ [(k, Connected cm)]\<rparr>"
  let ?s2 = "?s1\<lparr>ss_client := ?c\<lparr>c_cm := Some cm, c_stopRun := True\<rparr>, ss_owner := Some k,
    ss_starts := (ss_starts s)[i := StartReturned (Some k) None]\<rparr>"
  have "session_step rt fp alone s ?s1"
    by (rule session_step.Callback [OF assms(2,4) up])
  moreover have "session_step rt fp alone ?s1 ?s2"
    using session_step.Select [where s = ?s1 and i = i and k = k and sel = StartReady and cm = cm
        and err = None and fs = "[]" and alone = alone and rt = rt and fp = fp] assms(2,3,7)
    by (simp add: ret_def)
  ultimately have "(session_step rt fp alone)\<^sup>*\<^sup>* s ?s2" by simp
  then show ?thesis
    by (intro exI [of _ ?s2] exI [of _ ?r]) (auto simp: cancelled_def up_effects_simps(4))
qed

section \<open>Properties\<close>

text \<open>C12: starting again. However often \<open>Start\<close> is called, as long as each call returns before the
  next, and whatever calls of \<open>Stop\<close>, callbacks of any run and ends of contexts and managers
  come between, every run is cancelled, or it is the one the client holds, or its \<open>Start\<close> still
  waits. So no run is out of reach: when no call of \<open>Start\<close> is under way, one more call of \<open>Stop\<close>
  leaves every run cancelled. (While a \<open>Start\<close> waits, \<open>Stop\<close> does not reach its run.) And no
  callback of any run panics.\<close>

theorem sequential_starts_never_orphan:
  assumes "converts fp" and "well_built c0"
    and "(session_step rt fp True)\<^sup>*\<^sup>* (begin_session c0) s" and "k < length (ss_runs s)"
  shows "(cancelled s k \<or> ss_owner s = Some k \<or> StartWaiting k \<in> set (ss_starts s))
    \<and> (list_all returned (ss_starts s) \<longrightarrow>
         (\<exists>t err. (session_step rt fp True)\<^sup>*\<^sup>* s t \<and> ss_stops t = ss_stops s @ [StopReturned err]
            \<and> ss_runs t = ss_runs s \<and> (\<forall>j < length (ss_runs s). cancelled t j)))
    \<and> (\<exists>res. outcome (run_callback rt fp (fst (ss_runs s ! k)) (ss_client s) (snd (ss_runs s ! k)) cb) = Ret res)"
proof -
  have inv: "session_inv rt True c0 s"
    by (rule reachable_session_inv [OF assms(1-3)])
  then have hold: "hold_inv rt c0 s" and solo: "solo_inv s" and thr: "thread_inv s"
    by (simp_all add: session_inv_def)
  have reach: "cancelled s j \<or> ss_owner s = Some j \<or> StartWaiting j \<in> set (ss_starts s)"
    if "j < length (ss_runs s)" for j
  proof -
    have "consistent (ss_owner s) pc" if "pc \<in> set (ss_starts s)" for pc
      using that solo by (simp add: solo_inv_def list_all_iff)
    from this [of "StartReturned (Some j) None"] that thr show ?thesis
      by (auto simp: thread_inv_def on_hand_def)
  qed
  have "\<exists>t err. (session_step rt fp True)\<^sup>*\<^sup>* s t \<and> ss_stops t = ss_stops s @ [StopReturned err]
      \<and> ss_runs t = ss_runs s \<and> (\<forall>j < length (ss_runs s). cancelled t j)" if idle: "list_all returned (ss_starts s)"
  proof -
    obtain fs err c where stop: "Stop (ss_client s) (fst (ss_runs s ! k)) = (fs, Ret (err, c))"
      "ss_owner s \<noteq> None \<longrightarrow> CancelRun \<in> set fs"
      using hold by (auto simp: Stop_def hold_inv_def split: option.splits)
    let ?t = "(logged s (ss_owner s) fs)\<lparr>ss_client := c, ss_stops := ss_stops s @ [StopReturned err]\<rparr>"
    have "cancelled ?t j" if "j < length (ss_runs s)" for j
      using reach [of j] that idle stop(2) by (auto simp: cancelled_def list_all_iff)
    with stop_runs [OF hold stop(1)] show ?thesis by (intro exI [of _ ?t] exI [of _ err]) simp
  qed
  moreover have "\<exists>res. outcome (run_callback rt fp (fst (ss_runs s ! k)) (ss_client s) (snd (ss_runs s ! k)) cb) = Ret res"
    using run_callback_ok [OF assms(1,2), of "ss_client s" rt "fst (ss_runs s ! k)" "snd (ss_runs s ! k)" cb]
      hold assms(4) by (auto simp: hold_inv_def)
  ultimately show ?thesis using reach [OF assms(4)] by blast
qed

text \<open>C40: two calls of \<open>Start\<close> that overlap can both succeed. Both pass the guard before either has
  stored its manager, each makes a run and connects, both return nil, and the second store
  overwrites the first. From then on, where no limit of reconnection attempts is set, the
  cancel function of the first run is never called again: \<open>Stop\<close>, however often it is called,
  reaches the second run only. Only the caller can still end the first, by giving up the
  context it had started it with.\<close>

theorem overlapping_starts_orphan:
  assumes "converts fp" and "well_built c0" and "MaxReconnectAttempts (c_cfg c0) \<le>s 0"
  shows "\<exists>s. (session_step rt fp False)\<^sup>*\<^sup>* (begin_session c0) s
    \<and> ss_starts s = [StartReturned (Some 0) None, StartReturned (Some 1) None]
    \<and> (\<forall>t. (session_step rt fp False)\<^sup>*\<^sup>* s t \<longrightarrow> \<not> cancelled t 0)"
proof -
  let ?step = "session_step rt fp False" and ?x = "undefined"
  let ?s0 = "(begin_session c0)\<lparr>ss_runs := [(?x, new_run rt c0 ?x), (?x, new_run rt c0 ?x)],
    ss_starts := [StartWaiting 0, StartWaiting 1]\<rparr>"
  have s0: "?step\<^sup>*\<^sup>* (begin_session c0) ?s0"
    using assms(2) by (intro both_waiting) (simp add: well_built_def)
  have logger: "c_logger c0 \<noteq> None"
    using assms(2) by (simp add: well_built_def)
  have fresh: "r_firstConn (new_run rt c0 ?x)" "\<not> r_readyClosed (new_run rt c0 ?x)"
    by (simp_all add: new_run_def)
  obtain s1 r1 where s1: "?step\<^sup>*\<^sup>* ?s0 s1"
    "ss_starts s1 = [StartReturned (Some 0) None, StartWaiting 1]"
    "ss_runs s1 = [(?x, r1), (?x, new_run rt c0 ?x)]" "ss_stops s1 = []"
    "c_logger (ss_client s1) \<noteq> None" "\<forall>j. \<not> cancelled s1 j"
    using start_returns [where s = ?s0 and k = 0 and i = 0 and alone = False and rt = rt and fp = fp
        and r = "new_run rt c0 ?x" and x = ?x] logger fresh
    by (auto simp: begin_session_def cancelled_def)
  obtain s2 r2 where s2: "?step\<^sup>*\<^sup>* s1 s2"
    "ss_starts s2 = [StartReturned (Some 0) None, StartReturned (Some 1) None]"
    "ss_runs s2 = [(?x, r1), (?x, r2)]" "ss_stops s2 = []" "ss_owner s2 = Some 1"
    "\<forall>j. \<not> cancelled s2 j"
    using start_returns [where s = s1 and k = 1 and i = 1 and alone = False and rt = rt and fp = fp
        and r = "new_run rt c0 ?x" and x = ?x] s1(2-6) fresh
    by (auto simp: begin_session_def)
  have reach: "?step\<^sup>*\<^sup>* (begin_session c0) s2"
    using s0 s1(1) s2(1) by (meson rtranclp_trans)
  have "orphan s2 0" using s2 by (simp add: orphan_def)
  from orphan_forever [OF assms reachable_session_inv [OF assms(1,2) reach] this] reach s2(2)
  show ?thesis by blast
qed

section \<open>Witnesses\<close>

lemma one_waiting:
  assumes "c_cm c = None"
  shows "(session_step rt fp True)\<^sup>*\<^sup>* (begin_session c)
    ((begin_session c)\<lparr>ss_runs := [(x, new_run rt c x)], ss_starts := [StartWaiting 0]\<rparr>)"
proof -
  let ?step = "session_step rt fp True"
  let ?s1 = "(begin_session c)\<lparr>ss_starts := [StartEntered x]\<rparr>"
  let ?s2 = "(begin_session c)\<lparr>ss_starts := [StartPassed x]\<rparr>"
  let ?s3 = "(begin_session c)\<lparr>ss_runs := [(x, new_run rt c x)], ss_starts := [StartWaiting 0]\<rparr>"
  have "?step (begin_session c) ?s1"
    using session_step.StartCall [where s = "begin_session c" and alone = True and ctx = x]
    by (simp add: begin_session_def)
  moreover have "?step ?s1 ?s2"
    using session_step.Guard [where s = ?s1 and i = 0 and ctx = x and alone = True] assms
    by (simp add: begin_session_def startGuard_def)
  moreover have "?step ?s2 ?s3"
    using session_step.Create [where s = ?s2 and i = 0 and alone = True, OF _ _ createRun_new]
    by (simp add: begin_session_def)
  ultimately show ?thesis
    by (meson converse_rtranclp_into_rtranclp r_into_rtranclp)
qed

text \<open>A client is started and then stopped.\<close>

theorem sequential_starts_never_orphan_witness:
  "\<exists>s t. (session_step example_runtime example_conversion True)\<^sup>*\<^sup>* (begin_session example_client) s
     \<and> ss_starts s = [StartReturned (Some 0) None] \<and> \<not> cancelled s 0
     \<and> (session_step example_runtime example_conversion True)\<^sup>*\<^sup>* s t
     \<and> ss_runs t \<noteq> [] \<and> cancelled t 0"
proof -
  let ?step = "session_step example_runtime example_conversion True"
  let ?r = "new_run example_runtime example_client ''ctx''"
  let ?s0 = "(begin_session example_client)\<lparr>ss_runs := [(''ctx'', ?r)], ss_starts := [StartWaiting 0]\<rparr>"
  have built: "c_cm example_client = None" "c_logger example_client \<noteq> None"
    using example_client_well_built by (simp_all add: well_built_def)
  have s0: "?step\<^sup>*\<^sup>* (begin_session example_client) ?s0"
    by (rule one_waiting [OF built(1)])
  obtain s r where s: "?step\<^sup>*\<^sup>* ?s0 s" "ss_starts s = [StartReturned (Some 0) None]"
    "ss_runs s = [(''ctx'', r)]" "\<not> cancelled s 0"
    using start_returns [where s = ?s0 and k = 0 and i = 0 and alone = True and rt = example_runtime
        and fp = example_conversion and r = ?r and x = "''ctx''"] built(2)
    by (auto simp: begin_session_def cancelled_def new_run_def)
  have reach: "?step\<^sup>*\<^sup>* (begin_session example_client) s"
    using s0 s(1) by (meson rtranclp_trans)
  from sequential_starts_never_orphan [OF example_converts example_client_well_built reach, of 0]
  obtain t where "?step\<^sup>*\<^sup>* s t" "ss_runs t = ss_runs s" "cancelled t 0"
    using s(2,3) by auto
  with reach s show ?thesis
    by (intro exI [of _ s] exI [of _ t] conjI) simp_all
qed

theorem overlapping_starts_orphan_witness:
  "\<exists>s. (session_step example_runtime example_conversion False)\<^sup>*\<^sup>*
      (begin_session (example_client\<lparr>c_cfg := example_config\<lparr>MaxReconnectAttempts := 0\<rparr>\<rparr>)) s
    \<and> ss_starts s = [StartReturned (Some 0) None, StartReturned (Some 1) None]
    \<and> \<not> cancelled s 0"
proof -
  let ?c = "example_client\<lparr>c_cfg := example_config\<lparr>MaxReconnectAttempts := 0\<rparr>\<rparr>"
  have "well_built ?c" "MaxReconnectAttempts (c_cfg ?c) \<le>s 0"
    using example_client_well_built by (simp_all add: well_built_def)
  from overlapping_starts_orphan [OF example_converts this, of example_runtime] show ?thesis by blast
qed

end
