(* ===== verification/Progress.thy ===== *)
theory Progress
  imports Sessions
begin

text \<open>
  When calls of \<open>Start\<close> and \<open>Stop\<close> (src/client/client.go) return, whatever other calls, the
  callbacks, the callers' contexts and the connection managers do. The threads are those of
  \<open>Sessions\<close>. Only the \<open>select\<close> of \<open>Start\<close> ever waits, and what it waits for is told by what has
  happened outside the client: \<open>OnConnectionUp\<close> has run for its run, its context has ended, or
  its manager has. Calls of the libraries are taken to return.
\<close>

section \<open>What a call has still to do\<close>

fun start_left :: "('c, 'e) start_pc \<Rightarrow> nat" where
  "start_left (StartEntered ctx) = 3"
| "start_left (StartPassed ctx) = 2"
| "start_left (StartWaiting k) = 1"
| "start_left (StartReturned k err) = 0"

fun stop_left :: "('c, 'e) stop_pc \<Rightarrow> nat" where
  "stop_left (StopEntered x) = 4"
| "stop_left (StopHolds x cm k) = 3"
| "stop_left (StopDisconnected k err) = 2"
| "stop_left (StopCleared k err) = 1"
| "stop_left (StopReturned err) = 0"

definition calls_left :: "('c, 'm, 'e) session \<Rightarrow> nat" where
  "calls_left s = sum_list (map start_left (ss_starts s)) + sum_list (map stop_left (ss_stops s))"

lemma sum_list_update_less:
  fixes f :: "'a \<Rightarrow> nat"
  shows "i < length xs \<Longrightarrow> f y < f (xs ! i) \<Longrightarrow> sum_list (map f (xs[i := y])) < sum_list (map f xs)"
  by (induction xs arbitrary: i) (auto split: nat.split simp: less_Suc_eq_0_disj)

lemma stop_turn_left: "\<not> stop_returned pc \<Longrightarrow> stop_left (snd (stop_turn s pc)) < stop_left pc"
  by (cases pc) (auto split: option.split)

text \<open>
  A step that a call under way takes by itself: nobody calls \<open>Start\<close> or \<open>Stop\<close> anew, no callback
  runs, and no context or manager ends.
\<close>

definition own_step ::
  "'c runtime \<Rightarrow> (packet \<Rightarrow> publish outcome) \<Rightarrow> bool \<Rightarrow> ('c, 'm, 'e) session \<Rightarrow> ('c, 'm, 'e) session \<Rightarrow> bool"
  where
  "own_step rt fp alone s u \<longleftrightarrow> session_step rt fp alone s u
     \<and> length (ss_starts u) = length (ss_starts s) \<and> length (ss_stops u) = length (ss_stops s)
     \<and> ss_calls u = ss_calls s \<and> ss_gone u = ss_gone s \<and> ss_ended u = ss_ended s"

lemma own_step_less:
  assumes "own_step rt fp alone s u"
  shows "calls_left u < calls_left s"
proof -
  note lists = assms [unfolded own_step_def, THEN conjunct2]
  from assms have "session_step rt fp alone s u" by (simp add: own_step_def)
  then show ?thesis
  proof cases
    case (Guard i ctx)
    have "start_left (case startGuard (ss_client s) of None \<Rightarrow> StartPassed ctx
        | Some e \<Rightarrow> StartReturned None (Some e)) < start_left (ss_starts s ! i)"
      using Guard(3) by (simp split: option.split)
    with Guard show ?thesis by (simp add: calls_left_def sum_list_update_less)
  next
    case (StopTurn j s' pc)
    then have "stop_left pc < stop_left (ss_stops s ! j)"
      using stop_turn_left [of "ss_stops s ! j" s] by simp
    with StopTurn stop_turn_frame [OF StopTurn(4)] show ?thesis
      by (simp add: calls_left_def sum_list_update_less)
  qed (use lists in \<open>simp_all add: calls_left_def sum_list_update_less\<close>)
qed

lemma no_own_step_forever:
  "\<exists>n \<le> calls_left (f 0). \<not> own_step rt fp alone (f n) (f (Suc n))"
proof (rule ccontr)
  assume "\<not> ?thesis"
  then have steps: "own_step rt fp alone (f n) (f (Suc n))" if "n \<le> calls_left (f 0)" for n
    using that by blast
  have "calls_left (f n) + n \<le> calls_left (f 0)" if "n \<le> Suc (calls_left (f 0))" for n
    using that
  proof (induction n)
    case (Suc n)
    then show ?case using own_step_less [OF steps [of n]] by simp
  qed simp
  from this [of "Suc (calls_left (f 0))"] show False by simp
qed

section \<open>The connection that a select waits for\<close>

text \<open>\<open>OnConnectionUp\<close> has run for this run.\<close>

definition connected_run :: "('c, 'm, 'e) session \<Rightarrow> nat \<Rightarrow> bool" where
  "connected_run s k \<longleftrightarrow> (\<exists>cm. (k, Connected cm) \<in> set (ss_calls s))"

text \<open>\<open>startReady\<close> of a run is closed exactly when its connection has come up.\<close>

definition calls_inv :: "('c, 'm, 'e) session \<Rightarrow> bool" where
  "calls_inv s \<longleftrightarrow>
     (\<forall>k < length (ss_runs s). r_readyClosed (snd (ss_runs s ! k)) \<longleftrightarrow> connected_run s k)
     \<and> (\<forall>p \<in> set (ss_calls s). fst p < length (ss_runs s))"

lemma callback_ready:
  assumes "c_logger c \<noteq> None" "r_readyClosed r \<longleftrightarrow> \<not> r_firstConn r"
    and "run_callback rt fp ctx c r cb = (fs, Ret (c', r'))"
  shows "r_readyClosed r' \<longleftrightarrow> r_readyClosed r \<or> (\<exists>cm. cb = Connected cm)"
proof (cases cb)
  case (Connected cm)
  then show ?thesis
    using assms OnConnectionUp_eq [OF assms(1), of r ctx cm] by auto
next
  case Disconnected
  then show ?thesis using assms(3) by (auto simp: OnConnectionDown_eq split: option.splits)
next
  case (Refused e)
  with assms(3) have "snd (OnConnectError c r e) = Ret r'"
    by (auto dest!: arg_cong [of _ _ snd] seq_returned)
  then show ?thesis
    using Refused by (auto simp: OnConnectError_def dest!: seq_returned)
next
  case (Received pb)
  with assms(3) have "snd (routePacket rt fp r pb) = Ret r'"
    by (auto dest!: arg_cong [of _ _ snd] seq_returned)
  then show ?thesis
    using Received by (auto simp: routePacket_def dest!: seq_returned)
qed

lemma calls_inv_frame:
  "calls_inv s \<Longrightarrow> ss_runs t = ss_runs s \<Longrightarrow> ss_calls t = ss_calls s \<Longrightarrow> calls_inv t"
  by (simp add: calls_inv_def connected_run_def)

lemma calls_inv_step:
  assumes "well_built c0" "session_inv rt alone c0 s" "calls_inv s" "session_step rt fp alone s t"
  shows "calls_inv t"
  using assms(4)
proof cases
  case (Create i ctx refused fs r)
  have "\<not> r_readyClosed r"
    using Create(4) by (auto simp: createRun_def Let_def ret_def split: option.splits)
  with assms(3) Create show ?thesis
    by (fastforce simp: calls_inv_def connected_run_def nth_append less_Suc_eq)
next
  case (Callback k ctx r cb fs c r')
  have "c_logger (ss_client s) \<noteq> None" "r_readyClosed r \<longleftrightarrow> \<not> r_firstConn r"
    using assms(1,2) Callback(2,3) nth_mem [of k "ss_runs s"]
    by (auto simp: session_inv_def hold_inv_def same_setup_def well_built_def run_ok_def)
  note up = callback_ready [OF this Callback(4)]
  have "r_readyClosed (snd (ss_runs t ! j)) \<longleftrightarrow> connected_run t j" if "j < length (ss_runs s)" for j
    using assms(3) up Callback that
    by (cases "j = k") (auto simp: calls_inv_def connected_run_def)
  with assms(3) Callback show ?thesis by (auto simp: calls_inv_def)
next
  case (StopTurn j s' pc)
  with stop_turn_frame [OF StopTurn(4)] show ?thesis
    by (intro calls_inv_frame [OF assms(3)]) simp_all
qed (rule calls_inv_frame [OF assms(3)]; simp)+

lemma begin_calls_inv: "calls_inv (begin_session c0)"
  by (simp add: calls_inv_def begin_session_def)

interpretation connecting: stepped_invariant
  "begin_session c0" "session_step rt fp alone"
  "\<lambda>s. converts fp \<and> well_built c0 \<longrightarrow> session_inv rt alone c0 s \<and> calls_inv s"
  for c0 rt fp alone
  by unfold_locales (blast intro: begin_session_inv begin_calls_inv session_inv_step calls_inv_step)+

section \<open>Who can go on\<close>

text \<open>How \<open>Start\<close> can return for the run it waits for.\<close>

definition may_return :: "('c, 'm, 'e) session \<Rightarrow> nat \<Rightarrow> 'e start_error option \<Rightarrow> bool" where
  "may_return s k res \<longleftrightarrow>
     (case res of
        None \<Rightarrow> connected_run s k
      | Some (CancelledWaiting e) \<Rightarrow> caller_error s k = Some e
      | Some ManagerTerminated \<Rightarrow> k \<in> set (ss_ended s)
      | Some _ \<Rightarrow> False)"

lemma select_returns:
  assumes "calls_inv s" "k < length (ss_runs s)" "finishStart c cm sel = (fs, Ret (res, c'))"
  shows "ready s k sel \<longleftrightarrow> may_return s k res"
  using assms by (cases sel) (auto simp: may_return_def calls_inv_def ret_def)

lemma select_exists:
  "may_return s k res \<Longrightarrow> \<exists>sel fs c'. finishStart c cm sel = (fs, Ret (res, c'))"
proof (cases res)
  case None
  then show ?thesis by (intro exI [of _ StartReady]) (simp add: ret_def)
next
  case (Some e)
  assume "may_return s k res"
  with Some show ?thesis
    by (cases e) (auto simp: may_return_def intro: exI [of _ "ContextDone _"] exI [of _ ManagerDone])
qed

text \<open>The \<open>select\<close> can be left with a result exactly when that case is ready.\<close>

lemma waiting_returns:
  assumes "calls_inv s" "thread_inv s" "i < length (ss_starts s)" "ss_starts s ! i = StartWaiting k"
  shows "(\<exists>u. own_step rt fp alone s u \<and> ss_starts u = (ss_starts s)[i := StartReturned (Some k) res])
    \<longleftrightarrow> may_return s k res"
proof
  have k: "k < length (ss_runs s)"
    using assms(2-4) nth_mem [OF assms(3)] by (simp add: thread_inv_def)
  { assume "may_return s k res"
    then obtain sel fs c' where fin: "finishStart (ss_client s) undefined sel = (fs, Ret (res, c'))"
      using select_exists by blast
    then have "ready s k sel"
      using select_returns [OF assms(1) k] \<open>may_return s k res\<close> by blast
    from session_step.Select [OF assms(3,4) this fin, of rt fp alone]
    show "\<exists>u. own_step rt fp alone s u \<and> ss_starts u = (ss_starts s)[i := StartReturned (Some k) res]"
      by (fastforce simp: own_step_def) }
  assume "\<exists>u. own_step rt fp alone s u \<and> ss_starts u = (ss_starts s)[i := StartReturned (Some k) res]"
  then obtain u where u: "session_step rt fp alone s u" "ss_starts u ! i = StartReturned (Some k) res"
    "length (ss_starts u) = length (ss_starts s)"
    using assms(3) by (auto simp: own_step_def)
  from u(1) show "may_return s k res"
  proof cases
    case (Select j k' sel cm fs err c)
    then have "j = i" using u(2) assms(3,4) by (cases "j = i") auto
    with Select u(2) assms(3,4) have "k' = k" "err = res" by auto
    with Select show ?thesis using select_returns [OF assms(1) k] by blast
  next
    case (Guard j ctx)
    then show ?thesis using u(2) assms(3,4) by (cases "j = i") auto
  next
    case (Create j ctx refused fs r)
    then show ?thesis using u(2) assms(3,4) by (cases "j = i") auto
  next
    case (CreateFails j ctx refused fs e)
    then show ?thesis using u(2) assms(3,4) by (cases "j = i") auto
  next
    case (StopTurn j s' pc)
    then show ?thesis using u(2) assms(4) stop_turn_frame [OF StopTurn(4)] by simp
  qed (use u(2,3) assms(3,4) in simp_all)
qed

text \<open>A call that has nothing left to do, or can only wait.\<close>

fun at_rest :: "('c, 'm, 'e) session \<Rightarrow> ('c, 'e) start_pc \<Rightarrow> bool" where
  "at_rest s (StartReturned k err) \<longleftrightarrow> True"
| "at_rest s (StartWaiting k) \<longleftrightarrow>
     \<not> connected_run s k \<and> caller_error s k = None \<and> k \<notin> set (ss_ended s)"
| "at_rest s _ \<longleftrightarrow> False"

lemma at_rest_waiting: "at_rest s (StartWaiting k) \<longleftrightarrow> (\<forall>res. \<not> may_return s k res)"
proof
  assume none: "\<forall>res. \<not> may_return s k res"
  from none [rule_format, of None] none [rule_format, of "Some ManagerTerminated"]
    none [rule_format, of "Some (CancelledWaiting (the (caller_error s k)))"]
  show "at_rest s (StartWaiting k)"
    by (cases "caller_error s k") (auto simp: may_return_def)
qed (auto simp: may_return_def split: option.splits start_error.splits)

lemma start_goes_on:
  assumes "calls_inv s" "thread_inv s" "i < length (ss_starts s)" "\<not> at_rest s (ss_starts s ! i)"
  shows "\<exists>u. own_step rt fp alone s u"
proof (cases "ss_starts s ! i")
  case (StartEntered ctx)
  from session_step.Guard [OF assms(3) this, of rt fp alone] show ?thesis
    by (fastforce simp: own_step_def)
next
  case (StartPassed ctx)
  from session_step.Create [OF assms(3) this createRun_new, where fp = fp and alone = alone] show ?thesis
    by (fastforce simp: own_step_def)
next
  case (StartWaiting k)
  then obtain res where "may_return s k res" using assms(4) at_rest_waiting [of s k] by auto
  then show ?thesis using waiting_returns [OF assms(1-3) StartWaiting] by blast
qed (use assms(4) in simp)

lemma stop_goes_on:
  assumes "j < length (ss_stops s)" "\<not> stop_returned (ss_stops s ! j)"
  shows "\<exists>u. own_step rt fp alone s u"
proof -
  obtain s' pc where turn: "stop_turn s (ss_stops s ! j) = (s', pc)" by fastforce
  from session_step.StopTurn [OF assms turn, of rt fp alone] stop_turn_frame [OF turn]
  show ?thesis
    by (intro exI [of _ "s'\<lparr>ss_stops := (ss_stops s)[j := pc]\<rparr>"]) (simp add: own_step_def)
qed

lemma at_rest_stays:
  assumes "thread_inv s" "calls_inv s" "list_all (at_rest s) (ss_starts s)"
    and "list_all stop_returned (ss_stops s)"
  shows "\<not> own_step rt fp alone s u"
proof
  assume own: "own_step rt fp alone s u"
  then have step: "session_step rt fp alone s u"
    and lists: "length (ss_starts u) = length (ss_starts s)" "length (ss_stops u) = length (ss_stops s)"
      "ss_calls u = ss_calls s" "ss_gone u = ss_gone s" "ss_ended u = ss_ended s"
    by (simp_all add: own_step_def)
  have rest: "at_rest s (ss_starts s ! i)" if "i < length (ss_starts s)" for i
    using that assms(3) by (simp add: list_all_length)
  from step show False
  proof cases
    case (Select i k sel cm fs err c)
    have "k < length (ss_runs s)"
      using assms(1) Select(2,3) nth_mem [OF Select(2)] by (simp add: thread_inv_def)
    then have "may_return s k err"
      using select_returns [OF assms(2) _ Select(5)] Select(4) by blast
    with rest [OF Select(2)] Select(3) show False
      using at_rest_waiting [of s k] by auto
  qed (use rest assms(4) lists in \<open>fastforce simp: list_all_length\<close>)+
qed

section \<open>Properties\<close>

text \<open>C13: calls return, and a \<open>Start\<close> waits only while there is nothing for it to see. In every state
  that any interleaving of calls, callbacks and ends of contexts and managers can lead to:
  a \<open>Start\<close> that waits for a run can return nil exactly when \<open>OnConnectionUp\<close> has run for that run,
  even if the connection has been lost since, it can return the error of its context exactly
  when that has ended, and report the end of the manager exactly when that has ended; left to
  themselves, the calls under way take finitely many steps, in whatever order; and none of
  them can take another step exactly when every \<open>Stop\<close> has returned, and every \<open>Start\<close> has
  returned or waits for a run that has neither connected nor lost its context or manager.\<close>

theorem calls_return:
  fixes c0 :: "('c, 'm, 'e) client"
  assumes "converts fp" and "well_built c0"
    and "(session_step rt fp alone)\<^sup>*\<^sup>* (begin_session c0) s"
  shows "(\<forall>i < length (ss_starts s). \<forall>k. ss_starts s ! i = StartWaiting k \<longrightarrow>
      (\<forall>res. (\<exists>u. own_step rt fp alone s u \<and> ss_starts u = (ss_starts s)[i := StartReturned (Some k) res])
         \<longleftrightarrow> (case res of
                None \<Rightarrow> \<exists>cm. (k, Connected cm) \<in> set (ss_calls s)
              | Some (CancelledWaiting e) \<Rightarrow> caller_error s k = Some e
              | Some ManagerTerminated \<Rightarrow> k \<in> set (ss_ended s)
              | Some _ \<Rightarrow> False)))
    \<and> (\<forall>f. f 0 = s \<longrightarrow> (\<exists>n. \<not> own_step rt fp alone (f n) (f (Suc n))))
    \<and> ((\<nexists>u. own_step rt fp alone s u) \<longleftrightarrow>
         list_all stop_returned (ss_stops s)
         \<and> list_all (\<lambda>pc. case pc of
               StartReturned k err \<Rightarrow> True
             | StartWaiting k \<Rightarrow> (\<nexists>cm. (k, Connected cm) \<in> set (ss_calls s))
                 \<and> caller_error s k = None \<and> k \<notin> set (ss_ended s)
             | _ \<Rightarrow> False) (ss_starts s))"
proof -
  have inv: "thread_inv s" "calls_inv s"
    using connecting.reachable_inv [OF assms(3)] assms(1,2) by (simp_all add: session_inv_def)
  have rest: "(\<lambda>pc. case pc of
       StartReturned k err \<Rightarrow> True
     | StartWaiting k \<Rightarrow> (\<nexists>cm. (k, Connected cm) \<in> set (ss_calls s))
         \<and> caller_error s k = None \<and> k \<notin> set (ss_ended s)
     | _ \<Rightarrow> False) = at_rest s"
    by (auto simp: fun_eq_iff connected_run_def split: start_pc.split)
  have "(\<nexists>u. own_step rt fp alone s u) \<longleftrightarrow>
      list_all stop_returned (ss_stops s) \<and> list_all (at_rest s) (ss_starts s)"
    using at_rest_stays [OF inv] start_goes_on [OF inv(2,1)] stop_goes_on [of _ s]
    by (meson list_all_length)
  moreover have "\<exists>n. \<not> own_step rt fp alone (f n) (f (Suc n))" for f :: "nat \<Rightarrow> ('c, 'm, 'e) session"
    using no_own_step_forever [of f rt fp alone] by blast
  ultimately show ?thesis
    using waiting_returns [OF inv(2,1), of _ _ rt fp alone, unfolded may_return_def connected_run_def]
    unfolding rest by blast
qed

section \<open>Witnesses\<close>

text \<open>A call of \<open>Start\<close> whose run has just connected.\<close>

theorem calls_return_witness:
  "\<exists>s t. (session_step example_runtime example_conversion True)\<^sup>*\<^sup>* (begin_session example_client) s
     \<and> ss_starts s = [StartWaiting 0] \<and> own_step example_runtime example_conversion True s t
     \<and> ss_starts t = [StartReturned (Some 0) None]"
proof -
  let ?step = "session_step example_runtime example_conversion True"
  let ?r = "new_run example_runtime example_client ''ctx''"
  let ?s0 = "(begin_session example_client)\<lparr>ss_runs := [(''ctx'', ?r)], ss_starts := [StartWaiting 0]\<rparr>"
  have "?step\<^sup>*\<^sup>* (begin_session example_client) ?s0"
    using example_client_well_built by (intro one_waiting) (simp add: well_built_def)
  moreover obtain fs c r' where up: "run_callback example_runtime example_conversion ''ctx'' example_client ?r
      (Connected example_manager) = (fs, Ret (c, r'))" "r_readyClosed r'"
    using OnConnectionUp_eq [of example_client ?r "''ctx''" example_manager] example_client_well_built
    by (simp add: well_built_def new_run_def)
  let ?connected = "(logged ?s0 (Some 0) fs)\<lparr>ss_client := c, ss_runs := [(''ctx'', r')],
    ss_calls := [(0, Connected example_manager)]\<rparr>"
  have "?step ?s0 ?connected"
    using session_step.Callback [where s = ?s0 and k = 0 and alone = True and rt = example_runtime
        and fp = example_conversion and ctx = "''ctx''" and r = ?r and c = c and r' = r' and fs = fs
        and cb = "Connected example_manager"] up(1)
    by (simp add: begin_session_def)
  ultimately have reach: "?step\<^sup>*\<^sup>* (begin_session example_client) ?connected" by simp
  have "\<exists>cm. (0, Connected cm) \<in> set (ss_calls ?connected)" by auto
  with calls_return [OF example_converts example_client_well_built reach, THEN conjunct1, rule_format,
      of 0 0 None]
  obtain t where "own_step example_runtime example_conversion True ?connected t"
    "ss_starts t = [StartReturned (Some 0) None]"
    by auto
  with reach show ?thesis by (intro exI [of _ ?connected] exI [of _ t]) simp
qed

end
