(* ===== verification/Websocket.thy ===== *)
theory Websocket
  imports Client
begin

text \<open>
  MQTT over WebSocket (src/client/ws.go): the connection that sends each MQTT packet as one
  WebSocket message and reads the messages as one stream of bytes, and the choice of the
  dialer by the scheme of the broker's URL. The WebSocket library is the record \<open>ws_lib\<close>.
\<close>

section \<open>The connection\<close>

text \<open>
  What the code calls on the library's connection, whose state is \<open>'n\<close>, and on the reader of
  one message, whose state is \<open>'r\<close>: the next reader or an error, and reading at most so many
  bytes, which may come with an error. The end of a message is the error \<open>EOF\<close>.
\<close>

datatype 'e read_error = EOF | ReadError 'e

record ('n, 'r, 'e) ws_lib =
  NextReader :: "'n \<Rightarrow> 'n \<times> 'r option \<times> 'e option"
  reader_Read :: "'n \<Rightarrow> 'r \<Rightarrow> nat \<Rightarrow> 'n \<times> 'r \<times> bytes \<times> 'e read_error option"
  WriteMessage :: "bytes \<Rightarrow> 'e option"
  conn_Close :: "'e option"
  conn_LocalAddr :: string
  conn_RemoteAddr :: string
  conn_SetReadDeadline :: "int \<Rightarrow> 'e option"
  conn_SetWriteDeadline :: "int \<Rightarrow> 'e option"

record ('n, 'r) ws_conn =
  ws_net :: 'n
  ws_buf :: bytes
  ws_locked :: bool
  ws_r :: "'r option"

text \<open>A binary message handed to the library, a deadline set on it, or its being closed.\<close>

datatype ws_effect = Frame bytes | ReadDeadline int | WriteDeadline int | ConnClosed

definition ws_new :: "'n \<Rightarrow> ('n, 'r) ws_conn" where
  "ws_new n = \<lparr>ws_net = n, ws_buf = [], ws_locked = False, ws_r = None\<rparr>"

section \<open>Writing\<close>

text \<open>
  The write mutex is held between \<open>Lock\<close> and \<open>Unlock\<close>, and during an unlocked write: the
  operations of one holder run as given here. The error of the flush is dropped.
\<close>

definition ws_Lock :: "('n, 'r) ws_conn \<Rightarrow> ('n, 'r) ws_conn" where
  "ws_Lock c = c\<lparr>ws_buf := [], ws_locked := True\<rparr>"

definition ws_Unlock :: "('n, 'r) ws_conn \<Rightarrow> (ws_effect, ('n, 'r) ws_conn) comp" where
  "ws_Unlock c =
     (let c = c\<lparr>ws_locked := False\<rparr>
      in if length (ws_buf c) > 0 then ([Frame (ws_buf c)], Ret (c\<lparr>ws_buf := []\<rparr>))
         else ret c)"

definition ws_Write ::
  "('n, 'r, 'e) ws_lib \<Rightarrow> ('n, 'r) ws_conn \<Rightarrow> bytes
    \<Rightarrow> (ws_effect, ('n, 'r) ws_conn \<times> nat \<times> 'e option) comp" where
  "ws_Write lib c p =
     (if ws_locked c then ret (c\<lparr>ws_buf := ws_buf c @ p\<rparr>, length p, None)
      else
        (case WriteMessage lib p of
           Some e \<Rightarrow> ([Frame p], Ret (c, 0, Some e))
         | None \<Rightarrow> ([Frame p], Ret (c, length p, None))))"

text \<open>How paho writes a packet: it takes the lock and writes the parts.\<close>

fun ws_write_parts ::
  "('n, 'r, 'e) ws_lib \<Rightarrow> ('n, 'r) ws_conn \<Rightarrow> bytes list
    \<Rightarrow> (ws_effect, ('n, 'r) ws_conn \<times> nat) comp" where
  "ws_write_parts lib c [] = ret (c, 0)"
| "ws_write_parts lib c (p # ps) =
     seq (ws_Write lib c p) (\<lambda>(c, n, _). seq (ws_write_parts lib c ps) (\<lambda>(c, m). ret (c, n + m)))"

definition ws_write_packet ::
  "('n, 'r, 'e) ws_lib \<Rightarrow> ('n, 'r) ws_conn \<Rightarrow> bytes list
    \<Rightarrow> (ws_effect, ('n, 'r) ws_conn \<times> nat) comp" where
  "ws_write_packet lib c ps =
     seq (ws_write_parts lib (ws_Lock c) ps) (\<lambda>(c, n). seq (ws_Unlock c) (\<lambda>c. ret (c, n)))"

fun ws_write_packets ::
  "('n, 'r, 'e) ws_lib \<Rightarrow> ('n, 'r) ws_conn \<Rightarrow> bytes list list
    \<Rightarrow> (ws_effect, ('n, 'r) ws_conn) comp" where
  "ws_write_packets lib c [] = ret c"
| "ws_write_packets lib c (ps # pss) =
     seq (ws_write_packet lib c ps) (\<lambda>(c, _). ws_write_packets lib c pss)"

section \<open>Reading\<close>

text \<open>
  One turn of the loop of \<open>Read\<close>: it returns, or continues with the next message.
\<close>

definition ws_read_turn ::
  "('n, 'r, 'e) ws_lib \<Rightarrow> ('n, 'r) ws_conn \<Rightarrow> nat
    \<Rightarrow> ('n, 'r) ws_conn + (('n, 'r) ws_conn \<times> bytes \<times> 'e read_error option) outcome" where
  "ws_read_turn lib c k =
     (let (c, failed) =
        (case ws_r c of
           Some _ \<Rightarrow> (c, None)
         | None \<Rightarrow> (let (n, r, err) = NextReader lib (ws_net c)
                   in (c\<lparr>ws_net := n, ws_r := r\<rparr>, err)))
      in case failed of
           Some e \<Rightarrow> Inr (Ret (c, [], Some (ReadError e)))
         | None \<Rightarrow>
             (case ws_r c of
                None \<Rightarrow> Inr (Panic NilDereference)
              | Some r \<Rightarrow>
                  (let (n, r', bs, err) = reader_Read lib (ws_net c) r k;
                       c = c\<lparr>ws_net := n, ws_r := Some r'\<rparr>
                   in if err = Some EOF
                      then (let c = c\<lparr>ws_r := None\<rparr>
                            in if length bs > 0 then Inr (Ret (c, bs, None)) else Inl c)
                      else Inr (Ret (c, bs, err)))))"

text \<open>The loop may not end: then its value is \<open>None\<close>.\<close>

partial_function (option) ws_Read ::
  "('n, 'r, 'e) ws_lib \<Rightarrow> ('n, 'r) ws_conn \<Rightarrow> nat
    \<Rightarrow> (('n, 'r) ws_conn \<times> bytes \<times> 'e read_error option) outcome option" where
  "ws_Read lib c k =
     (case ws_read_turn lib c k of Inl c' \<Rightarrow> ws_Read lib c' k | Inr res \<Rightarrow> Some res)"

section \<open>The rest of the interface\<close>

text \<open>What the other methods of \<open>net.Conn\<close> pass on to the library, and what they answer.\<close>

definition ws_Close :: "('n, 'r, 'e) ws_lib \<Rightarrow> (ws_effect, 'e option) comp" where
  "ws_Close lib = ([ConnClosed], Ret (conn_Close lib))"

definition ws_LocalAddr :: "('n, 'r, 'e) ws_lib \<Rightarrow> string" where
  "ws_LocalAddr lib = conn_LocalAddr lib"

definition ws_RemoteAddr :: "('n, 'r, 'e) ws_lib \<Rightarrow> string" where
  "ws_RemoteAddr lib = conn_RemoteAddr lib"

definition ws_SetDeadline :: "('n, 'r, 'e) ws_lib \<Rightarrow> int \<Rightarrow> (ws_effect, 'e option) comp" where
  "ws_SetDeadline lib t = ([ReadDeadline t], Ret (conn_SetReadDeadline lib t))"

definition ws_SetReadDeadline :: "('n, 'r, 'e) ws_lib \<Rightarrow> int \<Rightarrow> (ws_effect, 'e option) comp" where
  "ws_SetReadDeadline lib t = ([ReadDeadline t], Ret (conn_SetReadDeadline lib t))"

definition ws_SetWriteDeadline :: "('n, 'r, 'e) ws_lib \<Rightarrow> int \<Rightarrow> (ws_effect, 'e option) comp" where
  "ws_SetWriteDeadline lib t = ([WriteDeadline t], Ret (conn_SetWriteDeadline lib t))"

section \<open>Dialing\<close>

text \<open>Go's \<open>strings.ToLower\<close>, on the ASCII letters that the cases of the switch are made of.\<close>

definition lower_char :: "char \<Rightarrow> char" where
  "lower_char ch =
     (if 65 \<le> (of_char ch :: nat) \<and> (of_char ch :: nat) \<le> 90 then char_of (of_char ch + 32 :: nat)
      else ch)"

definition to_lower :: "string \<Rightarrow> string" where
  "to_lower s = map lower_char s"

text \<open>
  Which dialer is called, with what: WebSocket with TLS configuration, subprotocols,
  handshake timeout in seconds and URL; TLS, with or without the context, with configuration
  and host; or plain TCP.
\<close>

datatype dial =
    DialWebsocket "opaque option" "string list" nat string
  | DialTLS bool "opaque option" string
  | DialTCP string

datatype ('n, 'r) net_conn = WSConn "('n, 'r) ws_conn" | RawConn 'n

datatype 'e dial_error = WebsocketDial string 'e | NetDial 'e

text \<open>The dialers are outside the repository: \<open>dialer\<close> is what they answer.\<close>

definition newWSConn ::
  "(dial \<Rightarrow> 'e + 'n) \<Rightarrow> opaque option \<Rightarrow> url \<Rightarrow> (dial, 'e dial_error + ('n, 'r) net_conn) comp" where
  "newWSConn dialer tlsCfg u =
     (let d = DialWebsocket tlsCfg [''mqtt''] 10 (url_text u)
      in ([d], Ret (case dialer d of
            Inl e \<Rightarrow> Inl (WebsocketDial (url_text u) e)
          | Inr n \<Rightarrow> Inr (WSConn (ws_new n)))))"

definition wsAttemptConnection ::
  "(dial \<Rightarrow> 'e + 'n) \<Rightarrow> opaque option \<Rightarrow> url \<Rightarrow> (dial, 'e dial_error + ('n, 'r) net_conn) comp" where
  "wsAttemptConnection dialer tlsCfg u = newWSConn dialer tlsCfg u"

definition netDial ::
  "(dial \<Rightarrow> 'e + 'n) \<Rightarrow> dial \<Rightarrow> (dial, 'e dial_error + ('n, 'r) net_conn) comp" where
  "netDial dialer d =
     ([d], Ret (case dialer d of Inl e \<Rightarrow> Inl (NetDial e) | Inr n \<Rightarrow> Inr (RawConn n)))"

definition makeAttemptConnection ::
  "(dial \<Rightarrow> 'e + 'n) \<Rightarrow> opaque option \<Rightarrow> opaque option \<Rightarrow> url
    \<Rightarrow> (dial, 'e dial_error + ('n, 'r) net_conn) comp" where
  "makeAttemptConnection dialer tlsCfg cfgTls u =
     (let scheme = to_lower (Scheme u)
      in if scheme \<in> set [''ws'', ''wss''] then wsAttemptConnection dialer tlsCfg u
         else if scheme \<in> set [''ssl'', ''tls'', ''mqtts'', ''mqtt+ssl'', ''tcps'']
         then (case cfgTls of
                 Some cfg \<Rightarrow> netDial dialer (DialTLS True (Some cfg) (Host u))
               | None \<Rightarrow> netDial dialer (DialTLS False tlsCfg (Host u)))
         else netDial dialer (DialTCP (Host u)))"

text \<open>The dialer of a client: what it gives autopaho, called with the configuration it gave it.\<close>

definition attemptConnection ::
  "(goint \<Rightarrow> uint16) \<Rightarrow> (dial \<Rightarrow> 'e + 'n) \<Rightarrow> ('c, 'm, 'x) client \<Rightarrow> 'f router \<Rightarrow> url
    \<Rightarrow> (dial, 'e dial_error + ('n, 'r) net_conn) comp" where
  "attemptConnection out_of_range dialer c router u =
     makeAttemptConnection dialer (TLSConfig (c_cfg c))
       (ac_TlsCfg (buildAutopahoConfig out_of_range c router)) u"

section \<open>One packet, one frame\<close>

lemma ws_write_parts_locked:
  "ws_locked c \<Longrightarrow> ws_write_parts lib c ps =
     ([], Ret (c\<lparr>ws_buf := ws_buf c @ concat ps\<rparr>, length (concat ps)))"
  by (induction ps arbitrary: c) (simp_all add: ws_Write_def ret_def)

definition unlocked :: "('n, 'r) ws_conn \<Rightarrow> ('n, 'r) ws_conn" where
  "unlocked c = c\<lparr>ws_buf := [], ws_locked := False\<rparr>"

lemma ws_write_packet_eq:
  "ws_write_packet lib c ps =
     (if concat ps = [] then [] else [Frame (concat ps)], Ret (unlocked c, length (concat ps)))"
  by (simp add: ws_write_packet_def ws_write_parts_locked ws_Lock_def ws_Unlock_def Let_def
      unlocked_def ret_def)

lemma unlocked_idem [simp]: "unlocked (unlocked c) = unlocked c"
  by (simp add: unlocked_def)

lemma ws_write_packets_eq:
  "ws_write_packets lib c pss =
     (map Frame (filter (\<lambda>f. f \<noteq> []) (map concat pss)), Ret (if pss = [] then c else unlocked c))"
  by (induction pss arbitrary: c) (simp_all add: ws_write_packet_eq ret_def)

text \<open>C26: whatever parts paho cuts its packets into, and whatever was left in the buffer before,
  each packet with any bytes is exactly one WebSocket message with all of them, in order; a
  packet is reported as written in full, and the connection is left unlocked with an empty
  buffer. A write outside the lock is a message of its own.\<close>

theorem one_frame_per_packet:
  "effects (ws_write_packets lib c pss) = map Frame (filter (\<lambda>f. f \<noteq> []) (map concat pss))
   \<and> (\<exists>c'. outcome (ws_write_packet lib c ps) = Ret (c', length (concat ps))
        \<and> \<not> ws_locked c' \<and> ws_buf c' = [] \<and> effects (ws_Write lib c' p) = [Frame p])"
  by (simp add: ws_write_packets_eq ws_write_packet_eq unlocked_def ws_Write_def split: option.split)

section \<open>Messages as a stream\<close>

text \<open>
  What the WebSocket library documents: the readers yield the messages in order, a read is a
  prefix of what is left of the message and not longer than asked for, the end of a message
  is reported when it is exhausted, and a connection without further messages fails. The
  messages still to come and what is left of the current one are functions of its state.
\<close>

definition yields_messages ::
  "('n, 'r, 'e) ws_lib \<Rightarrow> ('n \<Rightarrow> bytes list) \<Rightarrow> ('n \<Rightarrow> 'r \<Rightarrow> bytes) \<Rightarrow> bool" where
  "yields_messages lib queue rest \<longleftrightarrow>
     (\<forall>n. case queue n of
        [] \<Rightarrow> (\<exists>n' e. NextReader lib n = (n', None, Some e) \<and> queue n' = [])
      | m # ms \<Rightarrow> (\<exists>n' r. NextReader lib n = (n', Some r, None) \<and> queue n' = ms \<and> rest n' r = m))
   \<and> (\<forall>n r k. 0 < k \<longrightarrow>
        (case reader_Read lib n r k of (n', r', bs, err) \<Rightarrow>
           queue n' = queue n \<and> rest n r = bs @ rest n' r' \<and> length bs \<le> k
           \<and> (case err of
                None \<Rightarrow> bs \<noteq> []
              | Some EOF \<Rightarrow> rest n' r' = []
              | Some (ReadError e) \<Rightarrow> True)))"

definition ws_stream ::
  "('n \<Rightarrow> bytes list) \<Rightarrow> ('n \<Rightarrow> 'r \<Rightarrow> bytes) \<Rightarrow> ('n, 'r) ws_conn \<Rightarrow> bytes" where
  "ws_stream queue rest c =
     (case ws_r c of None \<Rightarrow> [] | Some r \<Rightarrow> rest (ws_net c) r) @ concat (queue (ws_net c))"

lemma next_message:
  assumes "yields_messages lib queue rest"
  shows "case queue n of
      [] \<Rightarrow> (\<exists>n' e. NextReader lib n = (n', None, Some e) \<and> queue n' = [])
    | m # ms \<Rightarrow> (\<exists>n' r. NextReader lib n = (n', Some r, None) \<and> queue n' = ms \<and> rest n' r = m)"
  using assms unfolding yields_messages_def by blast

lemma message_read:
  assumes "yields_messages lib queue rest" "0 < k" "reader_Read lib n r k = (n', r', bs, err)"
  shows "queue n' = queue n" "rest n r = bs @ rest n' r'" "length bs \<le> k"
    "err = None \<Longrightarrow> bs \<noteq> []" "err = Some EOF \<Longrightarrow> rest n' r' = []"
proof -
  have "\<forall>n r k. 0 < k \<longrightarrow> (case reader_Read lib n r k of (n', r', bs, err) \<Rightarrow>
      queue n' = queue n \<and> rest n r = bs @ rest n' r' \<and> length bs \<le> k
      \<and> (case err of None \<Rightarrow> bs \<noteq> [] | Some EOF \<Rightarrow> rest n' r' = [] | Some (ReadError e) \<Rightarrow> True))"
    using assms(1) unfolding yields_messages_def by (rule conjunct2)
  from this [rule_format, OF assms(2), of n r]
  show "queue n' = queue n" "rest n r = bs @ rest n' r'" "length bs \<le> k"
    "err = None \<Longrightarrow> bs \<noteq> []" "err = Some EOF \<Longrightarrow> rest n' r' = []"
    using assms(3) by auto
qed

text \<open>A connection on which no read fails in the middle of a message.\<close>

definition reliable :: "('n, 'r, 'e) ws_lib \<Rightarrow> bool" where
  "reliable lib \<longleftrightarrow> (\<forall>n r k e. snd (snd (snd (reader_Read lib n r k))) \<noteq> Some (ReadError e))"

text \<open>What a turn does to the stream, and how far it gets.\<close>

definition ws_ahead :: "('n \<Rightarrow> bytes list) \<Rightarrow> ('n, 'r) ws_conn \<Rightarrow> nat" where
  "ws_ahead queue c = 2 * length (queue (ws_net c)) + (if ws_r c = None then 0 else 1)"

definition good_read ::
  "('n, 'r, 'e) ws_lib \<Rightarrow> ('n \<Rightarrow> bytes list) \<Rightarrow> ('n \<Rightarrow> 'r \<Rightarrow> bytes) \<Rightarrow> ('n, 'r) ws_conn \<Rightarrow> nat
    \<Rightarrow> ('n, 'r) ws_conn \<times> bytes \<times> 'e read_error option \<Rightarrow> bool" where
  "good_read lib queue rest c k = (\<lambda>(c', bs, err).
     ws_stream queue rest c = bs @ ws_stream queue rest c' \<and> length bs \<le> k \<and> err \<noteq> Some EOF
     \<and> (err = None \<longrightarrow> bs \<noteq> []) \<and> (reliable lib \<and> err \<noteq> None \<longrightarrow> ws_stream queue rest c' = []))"

definition good_turn ::
  "('n, 'r, 'e) ws_lib \<Rightarrow> ('n \<Rightarrow> bytes list) \<Rightarrow> ('n \<Rightarrow> 'r \<Rightarrow> bytes) \<Rightarrow> ('n, 'r) ws_conn \<Rightarrow> nat
    \<Rightarrow> ('n, 'r) ws_conn + (('n, 'r) ws_conn \<times> bytes \<times> 'e read_error option) outcome \<Rightarrow> bool" where
  "good_turn lib queue rest c k t \<longleftrightarrow>
     (case t of
        Inl c' \<Rightarrow> ws_stream queue rest c' = ws_stream queue rest c \<and> ws_ahead queue c' < ws_ahead queue c
      | Inr (Ret res) \<Rightarrow> good_read lib queue rest c k res
      | Inr (Panic q) \<Rightarrow> False)"

lemma read_failure_cases:
  fixes err :: "'e read_error option"
  obtains "err = None" | "err = Some EOF" | e where "err = Some (ReadError e)"
proof (cases err)
  case (Some x)
  then show thesis using that by (cases x) simp_all
qed (use that in simp)

text \<open>Reading from a message that is already open.\<close>

lemma turn_open:
  assumes "yields_messages lib queue rest" "0 < k" "ws_r c = Some r"
  shows "good_turn lib queue rest c k (ws_read_turn lib c k)"
proof -
  obtain n' r' bs err where rd: "reader_Read lib (ws_net c) r k = (n', r', bs, err)"
    by (cases "reader_Read lib (ws_net c) r k") auto
  note m = message_read [OF assms(1,2) rd]
  have failed: "\<not> reliable lib" if "err = Some (ReadError e)" for e
    using that rd unfolding reliable_def by (metis snd_conv)
  show ?thesis
    using m assms(3) failed
    by (cases err rule: read_failure_cases)
       (auto simp: good_turn_def good_read_def ws_read_turn_def rd ws_stream_def ws_ahead_def Let_def)
qed

lemma turn_closed:
  assumes "yields_messages lib queue rest" "0 < k" "ws_r c = None"
  shows "good_turn lib queue rest c k (ws_read_turn lib c k)"
proof (cases "queue (ws_net c)")
  case Nil
  then obtain n' e where "NextReader lib (ws_net c) = (n', None, Some e)" "queue n' = []"
    using next_message [OF assms(1), of "ws_net c"] by auto
  with Nil assms(3) show ?thesis
    by (simp add: good_turn_def good_read_def ws_read_turn_def ws_stream_def)
next
  case (Cons m ms)
  then obtain n' r where nx: "NextReader lib (ws_net c) = (n', Some r, None)" "queue n' = ms" "rest n' r = m"
    using next_message [OF assms(1), of "ws_net c"] by auto
  let ?c = "c\<lparr>ws_net := n', ws_r := Some r\<rparr>"
  have "ws_read_turn lib c k = ws_read_turn lib ?c k"
    by (simp add: ws_read_turn_def nx assms(3))
  moreover have "ws_stream queue rest ?c = ws_stream queue rest c" "ws_ahead queue ?c < ws_ahead queue c"
    using Cons nx assms(3) by (simp_all add: ws_stream_def ws_ahead_def)
  moreover have "good_turn lib queue rest ?c k (ws_read_turn lib ?c k)"
    by (rule turn_open [OF assms(1,2)]) simp
  ultimately show ?thesis
    by (auto simp: good_turn_def good_read_def split: sum.splits outcome.splits)
qed

lemma ws_Read_good:
  assumes "yields_messages lib queue rest" "0 < k"
  shows "\<exists>res. ws_Read lib c k = Some (Ret res) \<and> good_read lib queue rest c k res"
proof (induction "ws_ahead queue c" arbitrary: c rule: less_induct)
  case less
  have turn: "good_turn lib queue rest c k (ws_read_turn lib c k)"
    using turn_open [OF assms] turn_closed [OF assms] by (cases "ws_r c") auto
  show ?case
  proof (cases "ws_read_turn lib c k")
    case (Inl c')
    then obtain res where "ws_Read lib c' k = Some (Ret res)" "good_read lib queue rest c' k res"
      using less [of c'] turn by (auto simp: good_turn_def)
    with Inl turn show ?thesis
      by (simp add: ws_Read.simps [of lib c] good_turn_def good_read_def)
  next
    case (Inr res)
    with turn show ?thesis
      by (cases res) (simp_all add: ws_Read.simps [of lib c] good_turn_def)
  qed
qed

text \<open>C27: \<open>Read\<close> presents the messages as one stream, and always returns. Every call, in whatever
  state the connection is, yields the next bytes of the stream, as many as the buffer holds
  at most, and leaves the rest of the stream for the calls that follow: message boundaries and
  empty messages disappear, no byte is lost or repeated. It never returns zero bytes without
  an error and never reports the end of a message as an error.\<close>

theorem Read_streams_messages:
  assumes "yields_messages lib queue rest" and "0 < k"
  shows "\<exists>c' bs err. ws_Read lib c k = Some (Ret (c', bs, err))
    \<and> ws_stream queue rest c = bs @ ws_stream queue rest c' \<and> length bs \<le> k
    \<and> (case err of None \<Rightarrow> bs \<noteq> [] | Some EOF \<Rightarrow> False | Some (ReadError e) \<Rightarrow> True)"
proof -
  obtain c' bs err where "ws_Read lib c k = Some (Ret (c', bs, err))"
    "good_read lib queue rest c k (c', bs, err)"
    using ws_Read_good [OF assms, of c] by (metis prod_cases3)
  then show ?thesis
    by (auto simp: good_read_def split: option.split read_error.split)
qed

section \<open>The choice of the dialer\<close>

lemma lower_char_idem [simp]: "lower_char (lower_char ch) = lower_char ch"
  by (simp add: lower_char_def)

text \<open>C34: the scheme of the broker's URL, whatever its case, decides how it is dialed, with exactly
  one dial: WebSocket for \<open>ws\<close> and \<open>wss\<close>, TLS for the five secure schemes, and plain TCP for
  every other scheme and for none. A secure scheme is never dialed in plain text; without a
  TLS configuration it is dialed with the defaults, and then not under the caller's context.
  A client dials with its own TLS configuration, whether autopaho passes it or not.\<close>

theorem dial_by_scheme:
  "(\<exists>d. effects (makeAttemptConnection dialer tls cfg u) = [d] \<and>
     (case d of
        DialWebsocket t protocols secs text \<Rightarrow> to_lower (Scheme u) \<in> {''ws'', ''wss''}
          \<and> t = tls \<and> protocols = [''mqtt''] \<and> text = url_text u
      | DialTLS under_ctx t host \<Rightarrow>
          to_lower (Scheme u) \<in> {''ssl'', ''tls'', ''mqtts'', ''mqtt+ssl'', ''tcps''}
          \<and> under_ctx = (cfg \<noteq> None) \<and> t = (if cfg = None then tls else cfg) \<and> host = Host u
      | DialTCP host \<Rightarrow> host = Host u
          \<and> to_lower (Scheme u) \<notin> {''ws'', ''wss'', ''ssl'', ''tls'', ''mqtts'', ''mqtt+ssl'', ''tcps''}))
   \<and> makeAttemptConnection dialer tls cfg (u\<lparr>Scheme := to_lower (Scheme u)\<rparr>)
     = makeAttemptConnection dialer tls cfg u
   \<and> (case hd (effects (attemptConnection out_of_range dialer c router u)) of
        DialTLS under_ctx t host \<Rightarrow>
          t = TLSConfig (c_cfg c) \<and> under_ctx = (TLSConfig (c_cfg c) \<noteq> None)
      | _ \<Rightarrow> True)"
proof -
  have "to_lower (to_lower s) = to_lower s" for s
    by (simp add: to_lower_def)
  then show ?thesis
    by (auto simp: attemptConnection_def buildAutopahoConfig_def makeAttemptConnection_def wsAttemptConnection_def newWSConn_def netDial_def Let_def
        split: option.split sum.split)
qed

section \<open>Witnesses\<close>

text \<open>A library whose state is the list of the messages to come.\<close>

definition example_lib :: "(bytes list, bytes, string) ws_lib" where
  "example_lib = \<lparr>
     NextReader = (\<lambda>n. case n of [] \<Rightarrow> ([], None, Some ''closed'') | m # ms \<Rightarrow> (ms, Some m, None)),
     reader_Read = (\<lambda>n r k. if r = [] then (n, [], [], Some EOF) else (n, drop k r, take k r, None)),
     WriteMessage = (\<lambda>p. None), conn_Close = None, conn_LocalAddr = ''local'',
     conn_RemoteAddr = ''broker'', conn_SetReadDeadline = (\<lambda>t. None),
     conn_SetWriteDeadline = (\<lambda>t. None)\<rparr>"

theorem Read_streams_messages_witness:
  "ws_Read example_lib (ws_new [[], [1, 2, 3], [4]]) 2
     = Some (Ret (\<lparr>ws_net = [[4]], ws_buf = [], ws_locked = False, ws_r = Some [3]\<rparr>, [1, 2], None))
   \<and> ws_stream id (\<lambda>n r. r) (ws_new [[], [1, 2, 3], [4]]) = [1, 2, 3, 4]"
proof -
  have "yields_messages example_lib id (\<lambda>n r. r)"
    by (auto simp: yields_messages_def example_lib_def split: list.split)
  from Read_streams_messages [OF this, of 2 "ws_new [[], [1, 2, 3], [4]]"]
  obtain c' bs err where read: "ws_Read example_lib (ws_new [[], [1, 2, 3], [4]]) 2 = Some (Ret (c', bs, err))"
    "ws_stream id (\<lambda>n r. r) (ws_new [[], [1, 2, 3], [4]]) = bs @ ws_stream id (\<lambda>n r. r) c'"
    by auto
  moreover have "ws_read_turn example_lib (ws_new [[], [1, 2, 3], [4]]) 2
      = Inl ((ws_new [[1, 2, 3], [4]])\<lparr>ws_r := None\<rparr>)"
    "ws_read_turn example_lib ((ws_new [[1, 2, 3], [4]])\<lparr>ws_r := None\<rparr>) 2
      = Inr (Ret (\<lparr>ws_net = [[4]], ws_buf = [], ws_locked = False, ws_r = Some [3]\<rparr>, [1, 2], None))"
    by (simp_all add: ws_read_turn_def example_lib_def ws_new_def)
  then have "ws_Read example_lib (ws_new [[], [1, 2, 3], [4]]) 2
     = Some (Ret (\<lparr>ws_net = [[4]], ws_buf = [], ws_locked = False, ws_r = Some [3]\<rparr>, [1, 2], None))"
    by (subst ws_Read.simps, simp only: sum.case, subst ws_Read.simps, simp only: sum.case)
  ultimately show ?thesis by (auto simp: ws_stream_def ws_new_def)
qed

end
