(* ===== verification/Writers.thy ===== *)
theory Writers
  imports Websocket
begin

text \<open>
  Several goroutines writing to one WebSocket connection (src/client/ws.go). The write mutex
  gives the connection to one holder at a time, from \<open>Lock\<close> to \<open>Unlock\<close>; a write outside the
  lock looks at the flag first and then takes the mutex for itself. The step relation
  \<open>writer_step\<close> interleaves them in every order. A writer that finds the flag set although it
  is not the holder would write into the holder's buffer: the code leaves it to its callers
  that this does not happen, and \<open>disciplined\<close> says whether they comply.
\<close>

section \<open>Steps\<close>

text \<open>
  The shared connection, the holder of the mutex with the parts it has still to write, the
  unlocked writes that wait for the mutex, and the frames sent. For the specification: the
  packets begun, and what has been finished, an unlocked write (\<open>True\<close>) or a packet.
\<close>

record ('n, 'r) writers =
  sh_conn :: "('n, 'r) ws_conn"
  sh_holder :: "nat option"
  sh_todo :: "bytes list"
  sh_waiting :: "bytes list"
  sh_frames :: "ws_effect list"
  sh_begun :: "bytes list list"
  sh_done :: "(bool \<times> bytes) list"

definition begin_writers :: "'n \<Rightarrow> ('n, 'r) writers" where
  "begin_writers n = \<lparr>sh_conn = ws_new n, sh_holder = None, sh_todo = [], sh_waiting = [],
     sh_frames = [], sh_begun = [], sh_done = []\<rparr>"

inductive writer_step ::
  "('n, 'r, 'e) ws_lib \<Rightarrow> bool \<Rightarrow> ('n, 'r) writers \<Rightarrow> ('n, 'r) writers \<Rightarrow> bool"
  for lib :: "('n, 'r, 'e) ws_lib" and disciplined :: bool where
  Acquire: "sh_holder s = None \<Longrightarrow>
     writer_step lib disciplined s (s\<lparr>sh_conn := ws_Lock (sh_conn s), sh_holder := Some w,
       sh_todo := ps, sh_begun := sh_begun s @ [ps]\<rparr>)"
| Part: "sh_holder s = Some w \<Longrightarrow> sh_todo s = p # ps \<Longrightarrow>
     ws_Write lib (sh_conn s) p = (fs, Ret (c, n, err)) \<Longrightarrow>
     writer_step lib disciplined s (s\<lparr>sh_conn := c, sh_todo := ps, sh_frames := sh_frames s @ fs\<rparr>)"
| Release: "sh_holder s = Some w \<Longrightarrow> sh_todo s = [] \<Longrightarrow> ws_Unlock (sh_conn s) = (fs, Ret c) \<Longrightarrow>
     writer_step lib disciplined s (s\<lparr>sh_conn := c, sh_holder := None, sh_frames := sh_frames s @ fs,
       sh_done := sh_done s @ [(False, concat (last (sh_begun s)))]\<rparr>)"
| Check: "\<not> ws_locked (sh_conn s) \<Longrightarrow>
     writer_step lib disciplined s (s\<lparr>sh_waiting := sh_waiting s @ [p]\<rparr>)"
| Direct: "sh_holder s = None \<Longrightarrow> p \<in> set (sh_waiting s) \<Longrightarrow>
     ws_Write lib (sh_conn s) p = (fs, Ret (c, n, err)) \<Longrightarrow>
     writer_step lib disciplined s (s\<lparr>sh_conn := c, sh_waiting := remove1 p (sh_waiting s),
       sh_frames := sh_frames s @ fs, sh_done := sh_done s @ [(True, p)]\<rparr>)"
| Intrude: "\<not> disciplined \<Longrightarrow> ws_locked (sh_conn s) \<Longrightarrow>
     ws_Write lib (sh_conn s) p = (fs, Ret (c, n, err)) \<Longrightarrow>
     writer_step lib disciplined s (s\<lparr>sh_conn := c, sh_frames := sh_frames s @ fs\<rparr>)"

inductive_cases writer_stepE: "writer_step lib disciplined s t"

section \<open>The invariant\<close>

text \<open>The flag is set exactly while somebody holds the mutex; the buffer and the parts to come
  are then the packet begun last, and every frame is a finished packet or unlocked write.\<close>

definition writers_inv :: "('n, 'r) writers \<Rightarrow> bool" where
  "writers_inv s \<longleftrightarrow>
     (ws_locked (sh_conn s) \<longleftrightarrow> sh_holder s \<noteq> None)
     \<and> sh_frames s = map (Frame \<circ> snd) (filter (\<lambda>(direct, bs). direct \<or> bs \<noteq> []) (sh_done s))
     \<and> (case sh_holder s of
          None \<Rightarrow> map snd (filter (\<lambda>(direct, bs). \<not> direct) (sh_done s)) = map concat (sh_begun s)
        | Some w \<Rightarrow> sh_begun s \<noteq> []
            \<and> map snd (filter (\<lambda>(direct, bs). \<not> direct) (sh_done s)) = map concat (butlast (sh_begun s))
            \<and> ws_buf (sh_conn s) @ concat (sh_todo s) = concat (last (sh_begun s)))"

lemma begin_writers_inv: "writers_inv (begin_writers n)"
  by (simp add: writers_inv_def begin_writers_def ws_new_def)

lemma ws_Write_cases:
  "ws_Write lib c p = (fs, Ret (c', n, err)) \<Longrightarrow>
     (if ws_locked c then c' = c\<lparr>ws_buf := ws_buf c @ p\<rparr> \<and> fs = [] else c' = c \<and> fs = [Frame p])"
  by (auto simp: ws_Write_def ret_def split: if_splits option.splits)

lemma ws_Unlock_cases:
  "ws_Unlock c = (fs, Ret c') \<Longrightarrow>
     c' = c\<lparr>ws_locked := False, ws_buf := []\<rparr> \<and> fs = (if ws_buf c = [] then [] else [Frame (ws_buf c)])"
  by (cases c) (auto simp: ws_Unlock_def Let_def ret_def split: if_splits)

lemma map_concat_butlast: "xs \<noteq> [] \<Longrightarrow> map concat (butlast xs) @ [concat (last xs)] = map concat xs"
  by (cases xs rule: rev_cases) simp_all

lemma writer_step_inv: "writers_inv s \<Longrightarrow> writer_step lib True s t \<Longrightarrow> writers_inv t"
  by (erule writer_stepE)
     (auto simp: writers_inv_def ws_Lock_def map_concat_butlast dest!: ws_Write_cases ws_Unlock_cases)

interpretation writing: stepped_invariant "begin_writers n" "writer_step lib True" writers_inv
  for n lib
  by unfold_locales (auto intro: begin_writers_inv writer_step_inv)

text \<open>A holder always gets to the end of its packet.\<close>

lemma holder_finishes:
  assumes "sh_holder s \<noteq> None" "ws_locked (sh_conn s)"
  shows "\<exists>t. (writer_step lib True)\<^sup>*\<^sup>* s t \<and> sh_holder t = None"
  using assms
proof (induction "sh_todo s" arbitrary: s)
  case Nil
  then obtain w where w: "sh_holder s = Some w" by auto
  have "\<exists>fs c. ws_Unlock (sh_conn s) = (fs, Ret c)"
    by (simp add: ws_Unlock_def Let_def ret_def)
  then obtain fs c where "ws_Unlock (sh_conn s) = (fs, Ret c)" by blast
  from writer_step.Release [OF w Nil.hyps [symmetric] this, of lib True] show ?case
    by (intro exI conjI, rule r_into_rtranclp) simp_all
next
  case (Cons p ps)
  then obtain w where w: "sh_holder s = Some w" by auto
  have "ws_Write lib (sh_conn s) p = ([], Ret ((sh_conn s)\<lparr>ws_buf := ws_buf (sh_conn s) @ p\<rparr>, length p, None))"
    using Cons.prems(2) by (simp add: ws_Write_def ret_def)
  from writer_step.Part [OF w Cons.hyps(2) [symmetric] this, of True]
  show ?case
    using Cons.hyps(1) [of "s\<lparr>sh_conn := (sh_conn s)\<lparr>ws_buf := ws_buf (sh_conn s) @ p\<rparr>, sh_todo := ps\<rparr>"]
      w Cons.prems(2) by (auto intro: converse_rtranclp_into_rtranclp)
qed

text \<open>The discipline is needed. A write by another goroutine while a packet is being written is
  taken for the holder's, and the frame that is sent is neither the packet nor the write.\<close>

lemma intruder_mixes:
  "\<exists>s. (writer_step lib False)\<^sup>*\<^sup>* (begin_writers n) s
     \<and> sh_begun s = [[[1]]] \<and> sh_done s = [(False, [1])] \<and> sh_frames s = [Frame [1, 9]]"
proof -
  let ?step = "writer_step lib False" and ?b = "begin_writers n"
  let ?c = "\<lambda>b. (ws_new n)\<lparr>ws_buf := b, ws_locked := True\<rparr>"
  let ?s = "\<lambda>b todo. ?b\<lparr>sh_conn := ?c b, sh_holder := Some 0, sh_todo := todo, sh_begun := [[[1]]]\<rparr>"
  have "?step ?b (?s [] [[1]])"
    using writer_step.Acquire [where s = ?b and lib = lib and disciplined = False
        and w = 0 and ps = "[[1]]"]
    by (simp add: begin_writers_def ws_new_def ws_Lock_def)
  moreover have "?step (?s [] [[1]]) (?s [1] [])"
    using writer_step.Part [where s = "?s [] [[1]]" and w = 0 and p = "[1]" and ps = "[]" and lib = lib
        and fs = "[]" and c = "?c [1]" and n = 1 and err = None and disciplined = False]
    by (simp add: begin_writers_def ws_new_def ws_Write_def ret_def)
  moreover have "?step (?s [1] []) (?s [1, 9] [])"
    using writer_step.Intrude [where s = "?s [1] []" and p = "[9]" and lib = lib
        and fs = "[]" and c = "?c [1, 9]" and n = 1 and err = None and disciplined = False]
    by (simp add: begin_writers_def ws_new_def ws_Write_def ret_def)
  moreover have "?step (?s [1, 9] []) (?b\<lparr>sh_conn := ws_new n, sh_frames := [Frame [1, 9]],
      sh_begun := [[[1]]], sh_done := [(False, [1])]\<rparr>)" (is "writer_step _ _ _ ?t")
    using writer_step.Release [where s = "?s [1, 9] []" and w = 0 and fs = "[Frame [1, 9]]"
        and c = "ws_new n" and lib = lib and disciplined = False]
    by (simp add: begin_writers_def ws_new_def ws_Unlock_def)
  ultimately have "?step\<^sup>*\<^sup>* ?b ?t" by simp
  then show ?thesis by (intro exI [of _ ?t]) simp
qed

section \<open>Properties\<close>

text \<open>C28: concurrent writers do not mix, as long as no goroutine writes outside the lock while
  another one holds it. However many goroutines then write packets through the lock, and
  write without it when it is free, in whatever interleaving, each frame on the connection is
  the whole of one finished packet or of one unlocked write, in the order in which they
  finished; packets finish in the order in which they took the lock, an empty one sends
  nothing, and whoever holds the lock can always go on to release it. The condition cannot be
  left out: one unlocked write at the wrong moment suffices for a frame that is neither a
  finished packet nor an unlocked write.\<close>

theorem writers_never_mix:
  assumes "(writer_step lib True)\<^sup>*\<^sup>* (begin_writers n) s"
  shows "sh_frames s = map (Frame \<circ> snd) (filter (\<lambda>(direct, bs). direct \<or> bs \<noteq> []) (sh_done s))
    \<and> map snd (filter (\<lambda>(direct, bs). \<not> direct) (sh_done s)) =
        map concat (if sh_holder s = None then sh_begun s else butlast (sh_begun s))
    \<and> (\<exists>t. (writer_step lib True)\<^sup>*\<^sup>* s t \<and> sh_holder t = None)
    \<and> (\<exists>u. (writer_step lib False)\<^sup>*\<^sup>* (begin_writers n) u
         \<and> \<not> set (sh_frames u) \<subseteq> (Frame \<circ> snd) ` set (sh_done u))"
proof -
  have mixed: "\<exists>u. (writer_step lib False)\<^sup>*\<^sup>* (begin_writers n) u
      \<and> \<not> set (sh_frames u) \<subseteq> (Frame \<circ> snd) ` set (sh_done u)"
    using intruder_mixes [of lib n] by force
  have inv: "writers_inv s" by (rule writing.reachable_inv [OF assms])
  show ?thesis
  proof (cases "sh_holder s")
    case None
    then show ?thesis using inv mixed by (auto simp: writers_inv_def)
  next
    case (Some w)
    then show ?thesis using inv mixed holder_finishes [of s lib] by (simp add: writers_inv_def)
  qed
qed

text \<open>The writers of a connection without messages.\<close>

abbreviation example_writers :: "(bytes list, bytes) writers" where
  "example_writers \<equiv> begin_writers []"

text \<open>A packet in two parts, while an unlocked write waits.\<close>

theorem writers_never_mix_witness:
  "\<exists>s. (writer_step example_lib True)\<^sup>*\<^sup>* example_writers s \<and> sh_holder s = Some 0
     \<and> sh_frames s = [] \<and> (\<exists>t. (writer_step example_lib True)\<^sup>*\<^sup>* s t \<and> sh_holder t = None)"
proof -
  let ?step = "writer_step example_lib True"
  let ?s0 = "example_writers\<lparr>sh_waiting := [[9]]\<rparr>"
  let ?s1 = "?s0\<lparr>sh_conn := ws_Lock (sh_conn ?s0), sh_holder := Some 0, sh_todo := [[1, 2], [3]],
    sh_begun := sh_begun ?s0 @ [[[1, 2], [3]]]\<rparr>"
  have "?step example_writers ?s0"
    using writer_step.Check [where s = example_writers and lib = example_lib and disciplined = True and p = "[9]"]
    by (simp add: begin_writers_def ws_new_def)
  moreover have "?step ?s0 ?s1"
    by (rule writer_step.Acquire) (simp add: begin_writers_def)
  ultimately have reach: "?step\<^sup>*\<^sup>* example_writers ?s1" by simp
  from writers_never_mix [OF this] show ?thesis
    using reach by (intro exI [of _ ?s1]) (simp add: begin_writers_def)
qed

end
