(* ===== verification/Tunnel.thy ===== *)
theory Tunnel
  imports Websocket
begin

text \<open>
  The two directions of src/client/ws.go together: the packets that one end writes are the
  bytes that the other end reads. The WebSocket connection between them carries messages; that
  it is a tunnel for a stream of bytes is the work of the locking, the buffer and the loop of
  \<open>Read\<close>.
\<close>

section \<open>Calling Read again and again\<close>

text \<open>One call for each buffer length, until one fails.\<close>

fun ws_Reads ::
  "('n, 'r, 'e) ws_lib \<Rightarrow> ('n, 'r) ws_conn \<Rightarrow> nat list
    \<Rightarrow> (('n, 'r) ws_conn \<times> bytes \<times> 'e read_error option) outcome option" where
  "ws_Reads lib c [] = Some (Ret (c, [], None))"
| "ws_Reads lib c (k # ks) =
     (case ws_Read lib c k of
        None \<Rightarrow> None
      | Some (Panic q) \<Rightarrow> Some (Panic q)
      | Some (Ret (c, bs, Some e)) \<Rightarrow> Some (Ret (c, bs, Some e))
      | Some (Ret (c, bs, None)) \<Rightarrow>
          map_option (\<lambda>out. case out of
              Panic q \<Rightarrow> Panic q
            | Ret (c, bs', err) \<Rightarrow> Ret (c, bs @ bs', err)) (ws_Reads lib c ks))"

text \<open>
  What the calls have read so far is a beginning of the stream, as much as the buffers hold at
  most, and at least a byte for each call; after a failure it is all of it.
\<close>

definition good_reads ::
  "bytes \<Rightarrow> nat list \<Rightarrow> bytes \<Rightarrow> 'e read_error option \<Rightarrow> bool" where
  "good_reads stream ks bs err \<longleftrightarrow> bs = take (length bs) stream \<and> length bs \<le> sum_list ks
     \<and> (case err of None \<Rightarrow> length ks \<le> length bs | Some e \<Rightarrow> bs = stream)"

lemma good_reads_Cons:
  "b \<noteq> [] \<Longrightarrow> length b \<le> k \<Longrightarrow> good_reads rest ks bs err \<Longrightarrow> good_reads (b @ rest) (k # ks) (b @ bs) err"
  by (cases b) (auto simp: good_reads_def split: option.splits)

lemma ws_Reads_good:
  assumes "yields_messages lib queue rest" "reliable lib" "\<forall>k \<in> set ks. 0 < k"
  shows "\<exists>c' bs err. ws_Reads lib c ks = Some (Ret (c', bs, err))
    \<and> good_reads (ws_stream queue rest c) ks bs err"
  using assms(3)
proof (induction ks arbitrary: c)
  case Nil
  then show ?case by (simp add: good_reads_def)
next
  case (Cons k ks)
  then have "0 < k" by simp
  from ws_Read_good [OF assms(1) this, of c] obtain c1 b err1 where
    r: "ws_Read lib c k = Some (Ret (c1, b, err1))" "good_read lib queue rest c k (c1, b, err1)"
    by auto
  show ?case
  proof (cases err1)
    case None
    then have step: "ws_stream queue rest c = b @ ws_stream queue rest c1" "b \<noteq> []" "length b \<le> k"
      using r(2) by (simp_all add: good_read_def)
    obtain c' bs err where "ws_Reads lib c1 ks = Some (Ret (c', bs, err))"
      "good_reads (ws_stream queue rest c1) ks bs err"
      using Cons.IH [of c1] Cons.prems by auto
    with r(1) None step good_reads_Cons [OF step(2,3)] show ?thesis by simp
  next
    case (Some e)
    then have "ws_stream queue rest c = b" "length b \<le> k"
      using r(2) assms(2) by (simp_all add: good_read_def)
    with r(1) Some show ?thesis by (simp add: good_reads_def)
  qed
qed

section \<open>Properties\<close>

text \<open>C25: what is written at one end is what is read at the other. One end writes packets, cut into
  parts in any way; the messages reach the other end, which reads with buffers of any sizes
  (none of length 0) on a connection that does not fail in the middle of a message. Every
  number of calls of \<open>Read\<close> returns a beginning of the bytes written, at least one for each
  call, until all of them have been read; only the call after that fails. So with more calls
  than bytes all the bytes of all packets have arrived, in order and without anything in
  between.\<close>

theorem packets_tunnel_through:
  assumes "yields_messages lib queue rest" and "reliable lib" and "\<forall>k \<in> set ks. 0 < k"
    and "effects (ws_write_packets wlib w pss) = map Frame (queue n)"
  shows "\<exists>c bs err. ws_Reads lib (ws_new n) ks = Some (Ret (c, bs, err))
    \<and> bs = take (length bs) (concat (concat pss)) \<and> length bs \<le> sum_list ks
    \<and> (case err of None \<Rightarrow> length ks \<le> length bs | Some e \<Rightarrow> bs = concat (concat pss))
    \<and> (length (concat (concat pss)) < length ks \<longrightarrow> err \<noteq> None)"
proof -
  have "queue n = filter (\<lambda>f. f \<noteq> []) (map concat pss)"
    using assms(4) by (simp add: ws_write_packets_eq inj_map_eq_map inj_def)
  moreover have "concat (filter (\<lambda>f. f \<noteq> []) fs) = concat fs" for fs :: "bytes list"
    by (induction fs) auto
  moreover have "concat (map concat pss) = concat (concat pss)"
    by (induction pss) simp_all
  ultimately have stream: "ws_stream queue rest (ws_new n) = concat (concat pss)"
    by (simp add: ws_stream_def ws_new_def)
  from ws_Reads_good [OF assms(1-3), of "ws_new n"] obtain c bs err where
    "ws_Reads lib (ws_new n) ks = Some (Ret (c, bs, err))" "good_reads (concat (concat pss)) ks bs err"
    unfolding stream by blast
  moreover from this(2) have "length bs \<le> length (concat (concat pss))"
    unfolding good_reads_def by (metis length_take min.cobounded1)
  ultimately show ?thesis
    by (intro exI [of _ c] exI [of _ bs] exI [of _ err]) (auto simp: good_reads_def split: option.splits)
qed

theorem packets_tunnel_through_witness:
  "\<exists>c e. ws_Reads example_lib (ws_new [[1, 2, 3], [4]]) [2, 2, 2, 2, 2]
     = Some (Ret (c, [1, 2, 3, 4], Some e))"
proof -
  have lib: "yields_messages example_lib id (\<lambda>n r. r)"
    by (auto simp: yields_messages_def example_lib_def split: list.split)
  have rel: "reliable example_lib"
    by (simp add: reliable_def example_lib_def)
  have "effects (ws_write_packets example_lib (ws_new []) [[[1], [2, 3]], [], [[4], []]])
      = map Frame (id [[1, 2, 3], [4]])"
    by (simp add: ws_write_packets_eq)
  from packets_tunnel_through [OF lib rel _ this, of "[2, 2, 2, 2, 2]"] show ?thesis
    by (auto split: option.splits)
qed

end
