(* ===== verification/Spec2Isabelle.thy ===== *)
theory Spec2Isabelle
  imports Account Traffic Headers Protocol Progress Writers Tunnel
begin

text \<open>
  vinculum-mqtt connects a vinculum event bus to an MQTT 5 broker. A client (src/client) owns
  one connection, managed by autopaho; publishers (src/publisher) are bus subscribers that
  turn an event into a publish through a function the client injects; subscribers
  (src/subscriber) turn an inbound message into a bus event; a router (src/client/router.go)
  hands each inbound packet to the subscribers it is for; trace context travels in MQTT user
  properties through a carrier (src/carrier). This development is a model of all of it, on
  which the kernel checks what each part promises and how the parts fit together.

  The theories, in the order of their imports:

    \<^item> \<open>Prelude\<close>: Go values (machine integers as words, possibly nil maps and byte slices),
      calls as effects and an outcome (a value or a panic), and three locales: loops that
      stop at the first match, invariants of step relations, and, extending these, simulations.
    \<^item> \<open>Carrier\<close>: src/carrier/carrier.go, with OpenTelemetry's contract of a text map
      carrier as the locale \<open>text_map_carrier\<close>, interpreted on \<open>Get\<close>, \<open>Set\<close> and \<open>Keys\<close>.
    \<^item> \<open>Runtime\<close>: what the packages call and do not contain, the record \<open>runtime\<close>: topic
      matching, propagation, map iteration order, spans and the clock; and paho's messages.
    \<^item> \<open>Metrics\<close>: the three metrics.go files. A measurement is a value.
    \<^item> \<open>Publisher\<close>: src/publisher/publisher.go and builder.go.
    \<^item> \<open>Topics\<close>: \<open>stripFieldNames\<close> of src/subscriber/subscriber.go.
    \<^item> \<open>Subscriber\<close>: src/subscriber/subscriber.go and builder.go.
    \<^item> \<open>Ledger\<close>: the metrics of a publisher and of a subscriber added up over whole histories of
      calls; the locale \<open>tally\<close> is a counter of a metrics backend.
    \<^item> \<open>Router\<close>: src/client/router.go on lists of entries; the locale \<open>recipient_registry\<close> is
      its contract.
    \<^item> \<open>GoSlices\<close>: Go's slices in general, headers into a store of arrays.
    \<^item> \<open>Headers\<close>: the carrier again, on slices: a second interpretation of \<open>text_map_carrier\<close>, a
      refinement, and which arrays a sequence of \<open>Set\<close> calls may write to.
    \<^item> \<open>Slices\<close>: the mutators of the router again, on slices: a second interpretation of \<open>recipient_registry\<close>, a refinement, and the proof that no array that
      existed before is written.
    \<^item> \<open>Dispatch\<close>: a dispatch that walks its snapshot while recipients come and go.
    \<^item> \<open>Traffic\<close>: any number of calls of \<open>Route\<close>, interleaved at its two critical sections and at
      every turn of its loop with each other and with the changes of the router.
    \<^item> \<open>Limiter\<close>: \<open>reconnectLimiter\<close> of src/client/client.go, with a 64-bit counter.
    \<^item> \<open>Client\<close>: src/client/client.go and config.go: construction, the callbacks handed to
      autopaho, \<open>Start\<close> up to and after its \<open>select\<close>, and \<open>Stop\<close>.
    \<^item> \<open>Lifecycle\<close>: the life of a started client, a step relation over callbacks, packets, the
      return of \<open>Start\<close>, calls of \<open>Stop\<close>, and the ends of the caller's context and of the
      connection manager, in any order. \<open>Start\<close> leaves its \<open>select\<close> only by a case that is ready,
      and the run is over (\<open>run_over\<close>) when its cancel function was called or the caller's
      context, from which the code derives its own, has ended.
    \<^item> \<open>Construction\<close>: \<open>NewClient\<close>, \<open>AddPublisher\<close> and \<open>AddSubscriber\<close> on what the builders made;
      \<open>client_typed\<close> is what they establish and every step of the life keeps.
    \<^item> \<open>Sessions\<close>: calls of \<open>Start\<close> and \<open>Stop\<close> by any number of goroutines, one critical section
      at a time, each \<open>Start\<close> with a run of its own; a whole callback is one step.
    \<^item> \<open>Progress\<close>: when the calls of \<open>Start\<close> and \<open>Stop\<close> in \<open>Sessions\<close> return: what a waiting \<open>Start\<close>
      can return, in terms of what has happened outside the client, and that nothing else ever
      keeps a call.
    \<^item> \<open>Exchange\<close>: a publisher and a subscriber joined by a broker that forwards messages.
    \<^item> \<open>Bridge\<close>: two clients in any states their histories have led to, joined by a broker.
    \<^item> \<open>Account\<close>: what the subscribers of a client have done over its whole life: the calls of
      \<open>HandleMessage\<close> that the packets of its history lead to, and the counters they add up to.
    \<^item> \<open>Protocol\<close>: the client as an abstract machine of seven variables, which the life of a
      started client implements: an interpretation of the locale \<open>simulation\<close>.
    \<^item> \<open>Websocket\<close>: src/client/ws.go: framing, reading, dialing.
    \<^item> \<open>Writers\<close>: several goroutines writing to one WebSocket connection, interleaved at its
      mutex and its flag, with and without the discipline that nobody writes outside the lock
      while it is held.
    \<^item> \<open>Tunnel\<close>: what one end of a WebSocket connection writes and the other end reads.
    \<^item> This theory: properties of several parts together.

  How state and operations correspond. A Go struct is a record with a prefix per type
  (\<open>p_\<close>, \<open>s_\<close>, \<open>c_\<close>, \<open>r_\<close>, \<open>ws_\<close>), a method is a function from the record to the new record. A
  pointer, interface or function that may be nil is an option, and the code that would
  dereference it nil panics in the model. What a call does to the outside (broker calls, bus
  events, measurements, spans, log lines, hooks) is the list of its effects in order. Errors
  are values of a datatype per package, one constructor per message of the code. The locals
  of \<open>Start\<close> that its callbacks capture are the record \<open>run\<close>. Each callback, the return of \<open>Start\<close>
  and each call of \<open>Stop\<close> is one atomic step of \<open>Lifecycle\<close>, which follows one run; autopaho calls
  the callbacks of a run one at a time. Where the code works on shared data outside a
  lock, a theory of its own takes the sections apart: the dispatch over its snapshot
  (\<open>Dispatch\<close>, \<open>Traffic\<close>), \<open>Start\<close> and \<open>Stop\<close> between their sections (\<open>Sessions\<close>), the writers of a WebSocket
  connection, whose flag is read outside the lock (\<open>Writers\<close>).

  What the lemmas show. Per component: which mapping or subscription is in force
  (\<open>first_match\<close>), what each branch of \<open>OnEvent\<close> and \<open>HandleMessage\<close> does, that measurements,
  spans and results agree (\<open>accounted\<close>, \<open>balanced\<close>), also over whole histories, in whatever order
  the measurements of overlapping calls arrive (\<open>Ledger\<close>), that built objects never panic; that the
  router calls each recipient once and keeps aliases to their connection; that the slices
  refine the lists; that concurrent calls of \<open>Route\<close> are each as good as atomic; that the limiter stops after exactly the configured failures. Across
  components: that no sequence of callbacks panics, publishers stay wired, subscriptions are
  renewed, a run ends for its four reasons only, packets reach each subscriber
  once; that a constructed client is typed and stays so (\<open>constructed_client_typed\<close>); that no
  manager is lost while calls of \<open>Start\<close> do not overlap, and one is when they do (\<open>orphan\<close>);
  that only a \<open>Start\<close> whose run has neither connected nor lost its context or manager waits,
  and every other call returns (\<open>calls_return\<close>);
  that fields and trace context survive the way from a publisher to a subscriber, and events
  the way from bus to bus; that nothing is lost or added between the packets of a whole life and
  the events and counters of the subscribers (\<open>client_account\<close>); that all a client shows is a function of its inputs (\<open>Protocol\<close>).

  Hypotheses about code outside the repository are named: \<open>ranges_ok\<close> (a map iteration visits
  every entry once), \<open>injects_headers\<close> (a propagator sets only its own headers, through the
  carrier), \<open>carries_context\<close> (a propagator extracts what it injected), \<open>converts\<close> (paho copies a packet's fields and needs its properties),
  \<open>yields_messages\<close> and \<open>reliable\<close> (the WebSocket library's readers). Each has an instance (\<open>example_runtime\<close>,
  \<open>example_conversion\<close>, \<open>example_lib\<close>) and each property with a hypothesis has a witness.

  Bounds and fuel. No definition takes fuel: loops over slices are structural, and the one
  loop that may not end, \<open>Read\<close> of the WebSocket connection, is a partial function that is
  proved to return whenever finitely many messages are pending. The theorems about the limiter
  bound the history by the range of Go's int, within which its counter does not wrap. A
  keep-alive of 65536 seconds or more is converted from a float out of the range of uint16;
  Go leaves the result open, and it is the parameter \<open>out_of_range\<close> of \<open>keepAliveSecs\<close>.

  Not modelled: autopaho, paho, OpenTelemetry, zap, gorilla/websocket and the vinculum
  libraries themselves; real time (a duration is a parameter); a callback that is interrupted
  between two of its critical sections; that autopaho's manager ends once its context is over
  (when a manager ends is left open); type declarations that carry
  no behaviour, the package documentation (its claims are compared with the model) and tests.
\<close>

section \<open>Packets and subscribers\<close>

text \<open>C1: one packet, one delivery per subscriber. In every state that a client can reach, a packet
  that arrives is handled by each subscriber with a matching pattern exactly once, in
  registration order, however many of its patterns match, and by no other; the message is on
  the packet's topic, or on the one its alias was last announced with on the current
  connection, and without either it is dropped. Nothing that is routed is then rejected as
  unmatched: routing and dispatch agree.\<close>

theorem packet_reaches_each_subscriber_once:
  assumes "converts fp" and "well_built c0"
    and "(life_step rt fp ctx)\<^sup>*\<^sup>* (begin_life rt c0 ctx) s"
  shows "\<exists>fs s'. life_event rt fp ctx s (PacketIn pb) = (fs, Ret s')
    \<and> fs = (if topic_on (l_events s) pb = '''' then []
        else concat (map (\<lambda>sub. effects (subscriberHandler rt (c_logger c0) ctx sub
               (message_of pb (topic_on (l_events s) pb))))
             (filter (\<lambda>sub. \<exists>p \<in> set (MQTTPatterns sub). Matches rt p (topic_on (l_events s) pb))
               (c_subscribers c0))))
    \<and> LogHandleError t (NoSubscriptionMatched u) \<notin> set fs"
proof -
  let ?r = "r_router (l_run s)" and ?t = "topic_on (l_events s) pb"
  have inv: "life_inv rt fp ctx c0 s"
    by (rule reachable_life_inv [OF assms])
  then have "router_ok rt c0 ctx ?r"
    using life_invD(4) [OF inv] unfolding router_inv_def by blast
  from client_Route [OF assms(1,2) this, of pb] client_topic [OF assms(1,2) inv, of pb]
  have run: "life_event rt fp ctx s (PacketIn pb) = (if ?t = '''' then [] else deliveries rt c0 ctx pb ?t,
      Ret (s\<lparr>l_run := (l_run s)\<lparr>r_router := fst (resolved ?r pb)\<rparr>\<rparr>))"
    by (simp add: routePacket_def)
  have "LogHandleError t (NoSubscriptionMatched u) \<notin> set (deliveries rt c0 ctx pb ?t)"
    by (rule deliveries_matched [OF assms(2)])
  with run show ?thesis by (auto simp: deliveries_def)
qed

section \<open>The order of map iteration\<close>

text \<open>Go iterates over a map in a different order every time: \<open>reordered\<close> is the other order.\<close>

definition reordered ::
  "'c runtime \<Rightarrow> ((string, string) gomap \<Rightarrow> (string \<times> string) list) \<Rightarrow> 'c runtime" where
  "reordered rt other = rt\<lparr>range_fields := other\<rparr>"

lemma reordered_simps [simp]:
  "Matches (reordered rt other) = Matches rt" "Extract (reordered rt other) = Extract rt"
  "prop_Inject (reordered rt other) = prop_Inject rt" "prop_Extract (reordered rt other) = prop_Extract rt"
  "span_ctx_valid (reordered rt other) = span_ctx_valid rt" "baggage_len (reordered rt other) = baggage_len rt"
  "with_baggage (reordered rt other) = with_baggage rt" "span_ctx (reordered rt other) = span_ctx rt"
  "since_start (reordered rt other) = since_start rt"
  by (simp_all add: reordered_def)

lemma find_loop_reordered: "find_loop (reordered rt other) t subs = find_loop rt t subs"
  by (induction subs) simp_all

lemma messageFields_reordered:
  assumes "ranges_ok rt" "ranges_ok (reordered rt other)"
  shows "messageFields (reordered rt other) sub msg = messageFields rt sub msg"
  by (simp only: messageFields_def ranges_ok_merge [OF assms(1)] ranges_ok_merge [OF assms(2)]
      reordered_simps)

lemma contexts_reordered [simp]:
  "remoteContext (reordered rt other) = remoteContext rt"
  "processingContext (reordered rt other) = processingContext rt"
  "deliver (reordered rt other) = deliver rt"
  unfolding fun_eq_iff remoteContext_def processingContext_def deliver_def reordered_simps by simp_all

lemma processMessage_reordered:
  assumes "ranges_ok rt" "ranges_ok (reordered rt other)"
  shows "processMessage (reordered rt other) = processMessage rt"
  unfolding fun_eq_iff processMessage_def messageFields_reordered [OF assms] contexts_reordered by simp

lemma resolve_loop_reordered:
  assumes "ranges_ok rt" "ranges_ok (reordered rt other)"
  shows "resolve_loop (reordered rt other) p topic msg flds ms = resolve_loop rt p topic msg flds ms"
proof -
  have "mergedFields (reordered rt other) flds ex = mergedFields rt flds ex" for ex
    by (simp only: mergedFields_def ranges_ok_merge [OF assms(1)] ranges_ok_merge [OF assms(2)])
  then show ?thesis
    by (induction ms) (simp_all add: applyMapping_def)
qed

text \<open>C29: Go's random map iteration cannot be observed. Whatever order the iterations of two runs
  take, a subscriber does exactly the same with a message, a publisher resolves an event to
  the same topic, QoS, retain flag or error, and the user properties it sends are the same up
  to their order: sorted, they are the sorted list of the fields.\<close>

theorem iteration_order_unobservable:
  assumes "ranges_ok rt" and "ranges_ok (reordered rt other)"
  shows "HandleMessage (reordered rt other) s ctx msg = HandleMessage rt s ctx msg
    \<and> resolveMapping (reordered rt other) p topic v flds = resolveMapping rt p topic v flds
    \<and> sort (fieldsToUserProperties (reordered rt other) flds) = sort (fieldsToUserProperties rt flds)
    \<and> sort (fieldsToUserProperties rt flds) = map (\<lambda>(k, v). user k v) (sorted_range flds)"
proof -
  have "HandleMessage (reordered rt other) s ctx msg = HandleMessage rt s ctx msg"
    unfolding HandleMessage_def findSubscription_def find_loop_reordered
      processMessage_reordered [OF assms] ..
  then show ?thesis
    by (simp add: resolveMapping_def resolve_loop_reordered [OF assms] sort_fieldsToUserProperties assms)
qed

section \<open>Witnesses\<close>

theorem packet_reaches_each_subscriber_once_witness:
  "\<exists>s'. life_event example_runtime example_conversion ''ctx'' example_start (PacketIn example_packet)
     = (effects (subscriberHandler example_runtime (c_logger example_client) ''ctx'' example_subscriber
          (message_of example_packet ''dev'')), Ret s')"
proof -
  have "topic_on (l_events example_start) example_packet = ''dev''"
    by (simp add: topic_on_def alias_of_def example_packet_def begin_life_def)
  moreover have "MQTTPatterns example_subscriber = [''other'', ''+id'']"
    by (simp add: MQTTPatterns_def example_subscriber_def example_subscription_def)
  ultimately show ?thesis
    using packet_reaches_each_subscriber_once [OF example_converts example_client_well_built
        rtranclp.rtrancl_refl, of example_runtime "''ctx''" example_packet]
    by (simp add: example_client_simps)
qed

text \<open>The same runtime with every iteration backwards.\<close>

theorem iteration_order_unobservable_witness:
  "HandleMessage (reordered example_runtime (\<lambda>m. rev (sorted_range m))) example_subscriber ''ctx'' example_message
     = HandleMessage example_runtime example_subscriber ''ctx'' example_message"
proof -
  have "enumerates m (rev (sorted_range m))" for m :: "(string, string) gomap"
    using enumerates_sorted_range [of m] map_of_rev_unique [of "sorted_range m"]
    by (simp add: enumerates_def rev_map [symmetric])
  then have "ranges_ok (reordered example_runtime (\<lambda>m. rev (sorted_range m)))"
    by (simp add: ranges_ok_def reordered_def)
  then show ?thesis
    using iteration_order_unobservable [OF example_ranges_ok] by blast
qed

end
